theory Spec2Isabelle
  imports Complex_Main
begin

section \<open>Numbers, errors and library functions\<close>

text \<open>
  The program computes with Python floats and numpy float64 arrays. They are modelled
  as exact reals: every operation returns its exact value, so rounding is outside the
  model, and so are NaN and the infinities. Two things follow for what is proved here.
  Where the source decides on a computed value that is zero or tied in exact arithmetic
  (the \<open>argmin\<close> over the grid, the fallback test of the power coefficients), the
  rounded computation may decide the other way; a property that holds only through
  such a decision is not stated as a theorem of the program. And a product that leaves
  the range of float64 is silently \<open>inf\<close> in the source; theorems about values carry
  the hypothesis that it stays in range.
  Two places where the operations of the source leave the finite numbers are written
  out: \<open>0.0 ** n\<close> for a negative exponent (numpy's \<open>inf\<close>) and the division \<open>0 / 0\<close>
  of two numpy scalars (numpy's \<open>nan\<close>); both are \<open>None\<close> below.

  A Python exception is a value of \<open>py_error\<close>; a function of the source that can raise
  returns \<open>py_error + 'a\<close>, with \<open>Inl\<close> the exception.
\<close>

datatype py_error =
    ZeroDivisionError
  | OverflowError
  | ValueError
  | IndexError nat  \<comment> \<open>the index that is out of bounds\<close>

definition bind :: "py_error + 'a \<Rightarrow> ('a \<Rightarrow> py_error + 'b) \<Rightarrow> py_error + 'b" where
  "bind r f = (case r of Inl e \<Rightarrow> Inl e | Inr v \<Rightarrow> f v)"

text \<open>Division of two Python floats: \<open>a / b\<close> raises \<open>ZeroDivisionError\<close> when \<open>b\<close> is zero.\<close>

definition py_div :: "real \<Rightarrow> real \<Rightarrow> py_error + real" where
  "py_div a b = (if b = 0 then Inl ZeroDivisionError else Inr (a / b))"

text \<open>
  A power of a Python float, \<open>a ** n\<close> with a literal exponent \<open>n\<close>: Python raises
  \<open>OverflowError\<close> when the result is too large for a float64, that is, when it would
  round to infinity. (Products, quotients and numpy's own powers overflow silently.)
\<close>

definition float_overflow :: real where
  "float_overflow = 2 ^ 1024 - 2 ^ 970"

definition py_pow :: "real \<Rightarrow> nat \<Rightarrow> py_error + real" where
  "py_pow a n = (if \<bar>a ^ n\<bar> \<ge> float_overflow then Inl OverflowError else Inr (a ^ n))"

text \<open>The guard \<open>1e-9\<close> and the placeholder denominator \<open>-1e-3\<close> of the source.\<close>

definition tiny :: real where
  "tiny = 1 / 10 ^ 9"

definition milli :: real where
  "milli = 1 / 10 ^ 3"

text \<open>\<open>np.clip(x, lo, hi)\<close> is \<open>minimum(maximum(x, lo), hi)\<close>.\<close>

definition np_clip :: "real \<Rightarrow> real \<Rightarrow> real \<Rightarrow> real" where
  "np_clip x lo hi = min (max x lo) hi"

text \<open>
  \<open>x ** n\<close> on float64 for a base \<open>x \<ge> 0\<close> (the source only raises clipped, non-negative
  values to a power): \<open>0 ** 0 = 1\<close>, \<open>0 ** n = 0\<close> for \<open>n > 0\<close>, and \<open>0 ** n = inf\<close>
  for \<open>n < 0\<close>, which is \<open>None\<close> here.
\<close>

definition np_power :: "real \<Rightarrow> real \<Rightarrow> real option" where
  "np_power x n =
     (if x = 0 then (if n = 0 then Some 1 else if 0 < n then Some 0 else None)
      else Some (x powr n))"

text \<open>
  \<open>np.linspace(start, stop, num)\<close>: \<open>num\<close> evenly spaced samples, both ends included;
  a single sample is \<open>start\<close>, and \<open>num = 0\<close> gives the empty array.
\<close>

definition np_linspace :: "real \<Rightarrow> real \<Rightarrow> nat \<Rightarrow> real list" where
  "np_linspace start stop num =
     (if num = 1 then [start]
      else map (\<lambda>i. start + real i * ((stop - start) / real (num - 1))) [0..<num])"

text \<open>
  \<open>np.argmin\<close>: the index of the first occurrence of the minimum; \<open>ValueError\<close> on
  an empty array.
\<close>

fun argmin_aux :: "nat \<Rightarrow> real \<Rightarrow> nat \<Rightarrow> real list \<Rightarrow> nat" where
  "argmin_aux bi bv i [] = bi"
| "argmin_aux bi bv i (x # xs) =
     (if x < bv then argmin_aux i x (Suc i) xs else argmin_aux bi bv (Suc i) xs)"

fun np_argmin :: "real list \<Rightarrow> py_error + nat" where
  "np_argmin [] = Inl ValueError"
| "np_argmin (x # xs) = Inr (argmin_aux 0 x 1 xs)"

text \<open>
  Python's \<open>min(xs, key=f)\<close> and \<open>max(xs, key=f)\<close>: the first element whose key is
  minimal (maximal); \<open>ValueError\<close> on an empty sequence.
\<close>

fun min_aux :: "('a \<Rightarrow> real) \<Rightarrow> 'a \<Rightarrow> 'a list \<Rightarrow> 'a" where
  "min_aux key best [] = best"
| "min_aux key best (x # xs) =
     (if key x < key best then min_aux key x xs else min_aux key best xs)"

fun py_min :: "('a \<Rightarrow> real) \<Rightarrow> 'a list \<Rightarrow> py_error + 'a" where
  "py_min key [] = Inl ValueError"
| "py_min key (x # xs) = Inr (min_aux key x xs)"

fun max_aux :: "('a \<Rightarrow> real) \<Rightarrow> 'a \<Rightarrow> 'a list \<Rightarrow> 'a" where
  "max_aux key best [] = best"
| "max_aux key best (x # xs) =
     (if key best < key x then max_aux key x xs else max_aux key best xs)"

fun py_max :: "('a \<Rightarrow> real) \<Rightarrow> 'a list \<Rightarrow> py_error + 'a" where
  "py_max key [] = Inl ValueError"
| "py_max key (x # xs) = Inr (max_aux key x xs)"

text \<open>Reading index \<open>i\<close> of a numpy array: \<open>IndexError\<close> past the end.\<close>

definition np_index :: "'a list \<Rightarrow> nat \<Rightarrow> py_error + 'a" where
  "np_index xs i = (if i < length xs then Inr (xs ! i) else Inl (IndexError i))"

text \<open>\<open>np.diff\<close>: the differences of consecutive elements.\<close>

fun np_diff :: "real list \<Rightarrow> real list" where
  "np_diff (a # b # xs) = (b - a) # np_diff (b # xs)"
| "np_diff xs = []"

text \<open>
  \<open>np.median\<close> of a non-empty array: the middle element of the sorted values, or the
  mean of the two middle ones.
\<close>

definition np_median :: "real list \<Rightarrow> real" where
  "np_median xs =
     (let s = sort xs; n = length s in
      if odd n then s ! (n div 2) else (s ! (n div 2 - 1) + s ! (n div 2)) / 2)"

section \<open>fan.py: the fan curve\<close>

record FanCurve =
  Q_free_ref_cfm :: real
  dP_shut_ref_Pa :: real
  N_ref_rpm :: real
  n_shape :: real

definition from_bep :: "real \<Rightarrow> real \<Rightarrow> real \<Rightarrow> real \<Rightarrow> FanCurve" where
  "from_bep Q_bep_cfm dP_bep_Pa N_ref n =
     \<lparr>Q_free_ref_cfm = Q_bep_cfm / 0.6, dP_shut_ref_Pa = dP_bep_Pa / 0.6,
      N_ref_rpm = N_ref, n_shape = n\<rparr>"

definition free_delivery_cfm :: "FanCurve \<Rightarrow> real \<Rightarrow> py_error + real" where
  "free_delivery_cfm fan N =
     bind (py_div N (N_ref_rpm fan)) (\<lambda>r. Inr (Q_free_ref_cfm fan * r))"

definition shutoff_pressure_Pa :: "FanCurve \<Rightarrow> real \<Rightarrow> py_error + real" where
  "shutoff_pressure_Pa fan N =
     bind (py_div N (N_ref_rpm fan)) (\<lambda>r.
     bind (py_pow r 2) (\<lambda>r2. Inr (dP_shut_ref_Pa fan * r2)))"

text \<open>
  One element of \<open>dP_at\<close>: \<open>x = clip(Q / max(Q_free, 1e-9), 0, 10)\<close> and
  \<open>dP = dP_shut * maximum(1 - x ** n, 0)\<close>. Where \<open>x ** n\<close> is \<open>inf\<close>, \<open>1 - inf\<close> is
  \<open>-inf\<close> and the maximum is \<open>0\<close>.
\<close>

definition dP_elem :: "real \<Rightarrow> real \<Rightarrow> real \<Rightarrow> real \<Rightarrow> real" where
  "dP_elem Q_free dP_shut n Q =
     (let x = np_clip (Q / max Q_free tiny) 0 10 in
      dP_shut * (case np_power x n of Some p \<Rightarrow> max (1 - p) 0 | None \<Rightarrow> 0))"

text \<open>\<open>FanCurve.dP_at\<close> on an array of airflows (a scalar is the array of one element).\<close>

definition dP_at :: "FanCurve \<Rightarrow> real list \<Rightarrow> real \<Rightarrow> py_error + real list" where
  "dP_at fan Q_cfm N =
     bind (free_delivery_cfm fan N) (\<lambda>Q_free.
     bind (shutoff_pressure_Pa fan N) (\<lambda>dP_shut.
       Inr (map (dP_elem Q_free dP_shut (n_shape fan)) Q_cfm)))"

section \<open>controller.py: operating point, speed solver, mode selector\<close>

definition operating_point_Q :: "FanCurve \<Rightarrow> real \<Rightarrow> real \<Rightarrow> nat \<Rightarrow> py_error + real" where
  "operating_point_Q fan k rpm n_grid =
     bind (free_delivery_cfm fan rpm) (\<lambda>Q_free.
       if Q_free \<le> tiny then Inr 0
       else
         let Q = np_linspace 0 Q_free n_grid in
         bind (dP_at fan Q rpm) (\<lambda>dP_fan.
           let dP_sys = map (\<lambda>q. k * q ^ 2) Q in
           bind (np_argmin (map2 (\<lambda>a b. \<bar>a - b\<bar>) dP_fan dP_sys)) (\<lambda>i.
             Inr (Q ! i))))"

text \<open>The default \<open>n_grid=800\<close>, which every caller uses.\<close>

definition n_grid_default :: nat where
  "n_grid_default = 800"

text \<open>
  The bisection loop of \<open>solve_rpm_for_Q\<close>, by the number of iterations left, with
  the code after the loop as its base case.
\<close>

fun bisect :: "FanCurve \<Rightarrow> real \<Rightarrow> real \<Rightarrow> real \<Rightarrow> nat \<Rightarrow> real \<Rightarrow> real
    \<Rightarrow> py_error + (real \<times> real)" where
  "bisect fan k Q_target eps_cfm 0 lo hi =
     (let rpm = 0.5 * (lo + hi) in
      bind (operating_point_Q fan k rpm n_grid_default) (\<lambda>Qop. Inr (rpm, Qop)))"
| "bisect fan k Q_target eps_cfm (Suc iters) lo hi =
     (let mid = 0.5 * (lo + hi) in
      bind (operating_point_Q fan k mid n_grid_default) (\<lambda>Qm.
        if Qm < Q_target - eps_cfm then bisect fan k Q_target eps_cfm iters mid hi
        else if Qm > Q_target + eps_cfm then bisect fan k Q_target eps_cfm iters lo mid
        else Inr (mid, Qm)))"

definition solve_rpm_for_Q :: "FanCurve \<Rightarrow> real \<Rightarrow> real \<Rightarrow> real \<Rightarrow> real \<Rightarrow> real \<Rightarrow> nat
    \<Rightarrow> py_error + (real \<times> real)" where
  "solve_rpm_for_Q fan k Q_target rpm_lo rpm_hi eps_cfm iters =
     bind (operating_point_Q fan k rpm_lo n_grid_default) (\<lambda>Q_lo.
     bind (operating_point_Q fan k rpm_hi n_grid_default) (\<lambda>Q_hi.
       if Q_target \<le> Q_lo + eps_cfm then Inr (rpm_lo, Q_lo)
       else if Q_target \<ge> Q_hi - eps_cfm then Inr (rpm_hi, Q_hi)
       else bisect fan k Q_target eps_cfm iters rpm_lo rpm_hi))"

type_synonym power_fn = "FanCurve \<Rightarrow> real \<Rightarrow> real \<Rightarrow> real \<Rightarrow> real \<Rightarrow> py_error + real"

text \<open>The first loop of \<open>choose_mode_min_power\<close>: the triples \<open>(rpm, Qop, P)\<close>.\<close>

fun mode_triples :: "FanCurve \<Rightarrow> real \<Rightarrow> real list \<Rightarrow> power_fn \<Rightarrow> real \<Rightarrow> real
    \<Rightarrow> py_error + (real \<times> real \<times> real) list" where
  "mode_triples fan k [] power_fn P_bep_ref_W N_ref = Inr []"
| "mode_triples fan k (rpm # speeds) power_fn P_bep_ref_W N_ref =
     bind (operating_point_Q fan k rpm n_grid_default) (\<lambda>Qop.
     bind (power_fn fan Qop rpm P_bep_ref_W N_ref) (\<lambda>P.
     bind (mode_triples fan k speeds power_fn P_bep_ref_W N_ref) (\<lambda>triples.
       Inr ((rpm, Qop, P) # triples))))"

definition choose_mode_min_power :: "FanCurve \<Rightarrow> real \<Rightarrow> real list \<Rightarrow> real \<Rightarrow> real
    \<Rightarrow> power_fn \<Rightarrow> real \<Rightarrow> real \<Rightarrow> py_error + (real \<times> real)" where
  "choose_mode_min_power fan k speeds_rpm Q_target eps_cfm power_fn P_bep_ref_W N_ref =
     bind (mode_triples fan k speeds_rpm power_fn P_bep_ref_W N_ref) (\<lambda>triples.
       let feas = filter (\<lambda>(rpm, Qop, P). Qop \<ge> Q_target - eps_cfm) triples in
       if feas \<noteq> [] then
         bind (py_min (\<lambda>z. snd (snd z)) feas) (\<lambda>(rpm, Qop, P). Inr (rpm, Qop))
       else
         bind (py_max (\<lambda>z. fst (snd z)) triples) (\<lambda>(rpm, Qop, P). Inr (rpm, Qop)))"

section \<open>simulate.py: power model and time simulation\<close>

text \<open>
  The coefficients \<open>(p0, b1, b2)\<close> that \<open>power_model_convex\<close> computes from its three
  shape parameters, fallback included. \<open>x_bep**2\<close> is a power of a Python float and can
  raise. The division by \<open>denom\<close> cannot: \<open>denom\<close> is either larger than \<open>1e-9\<close> in
  absolute value or \<open>-1e-3\<close>.
\<close>

definition power_coeffs :: "real \<Rightarrow> real \<Rightarrow> real \<Rightarrow> py_error + (real \<times> real \<times> real)" where
  "power_coeffs idle_frac gamma_free x_bep =
     bind (py_pow x_bep 2) (\<lambda>x_bep2.
       let p0 = idle_frac;
           denom = (if \<bar>x_bep2 - x_bep\<bar> > tiny then x_bep2 - x_bep else - milli);
           b2 = (1 - p0 - x_bep * (gamma_free - p0)) / denom;
           b1 = (gamma_free - p0) - b2
       in if b2 \<le> 0 \<or> (b1 + 2 * b2) \<le> 0
          then (let b2' = max (0.2 * (gamma_free - 1)) milli;
                    b1' = (gamma_free - p0) - b2'
                in Inr (p0, b1', b2'))
          else Inr (p0, b1, b2))"

definition power_model_convex :: "FanCurve \<Rightarrow> real \<Rightarrow> real \<Rightarrow> real \<Rightarrow> real
    \<Rightarrow> real \<Rightarrow> real \<Rightarrow> real \<Rightarrow> py_error + real" where
  "power_model_convex fan Q_cfm rpm P_bep_ref_W N_ref idle_frac gamma_free x_bep =
     bind (free_delivery_cfm fan rpm) (\<lambda>Q_free0.
       let Q_free = max Q_free0 tiny;
           x = np_clip (Q_cfm / Q_free) 0 1
       in bind (power_coeffs idle_frac gamma_free x_bep) (\<lambda>(p0, b1, b2).
          bind (py_div rpm N_ref) (\<lambda>r.
          bind (py_pow r 3) (\<lambda>r3.
            let P_bep_N = P_bep_ref_W * r3
            in Inr (P_bep_N * (p0 + b1 * x + b2 * x ^ 2))))))"

text \<open>
  \<open>power_model_convex\<close> with its default shape parameters
  \<open>idle_frac=0.22, gamma_free=2.0, x_bep=0.60\<close>: what \<open>choose_mode_min_power\<close> gets as
  \<open>power_fn\<close> and calls with five arguments.
\<close>

definition power_model_convex_default :: power_fn where
  "power_model_convex_default fan Q_cfm rpm P_bep_ref_W N_ref =
     power_model_convex fan Q_cfm rpm P_bep_ref_W N_ref 0.22 2.0 0.60"

text \<open>The keyword arguments of \<open>run_time_sim\<close>.\<close>

record sim_kwargs =
  kw_speeds_rpm :: "real list"
  kw_fixed_rpm :: real
  kw_P_bep_ref_W :: real
  kw_N_ref_rpm :: real
  kw_idle_frac :: real
  kw_gamma_free :: real
  kw_x_bep :: real
  kw_rpm_bounds :: "(real \<times> real) option"
  kw_eps_cfm :: real
  kw_lambda_shortfall :: real

text \<open>The dictionary \<open>data\<close> of column arrays, one field per key.\<close>

record sim_data =
  col_t :: "real list"
  col_Qd :: "real list"
  col_k :: "real list"
  Q_fixed :: "real list"
  rpm_fixed :: "real list"
  P_fixed :: "real list"
  Q_modes :: "real list"
  rpm_modes :: "real list"
  P_modes :: "real list"
  Q_var :: "real list"
  rpm_var :: "real list"
  P_var :: "real list"
  c_fixed :: "bool list"
  c_modes :: "bool list"
  c_var :: "bool list"
  s_fixed :: "real list"
  s_modes :: "real list"
  s_var :: "real list"
  o_fixed :: "real list"
  o_modes :: "real list"
  o_var :: "real list"

definition init_data :: "real list \<Rightarrow> real list \<Rightarrow> real list \<Rightarrow> real \<Rightarrow> sim_data" where
  "init_data t Q_demand k_t fixed_rpm =
     (let T = length t in
      \<lparr>col_t = t, col_Qd = Q_demand, col_k = k_t,
       Q_fixed = replicate T 0, rpm_fixed = replicate T fixed_rpm, P_fixed = replicate T 0,
       Q_modes = replicate T 0, rpm_modes = replicate T 0, P_modes = replicate T 0,
       Q_var = replicate T 0, rpm_var = replicate T 0, P_var = replicate T 0,
       c_fixed = replicate T False, c_modes = replicate T False, c_var = replicate T False,
       s_fixed = replicate T 0, s_modes = replicate T 0, s_var = replicate T 0,
       o_fixed = replicate T 0, o_modes = replicate T 0, o_var = replicate T 0\<rparr>)"

text \<open>The body of the loop of \<open>run_time_sim\<close> at index \<open>i\<close>.\<close>

definition sim_step :: "FanCurve \<Rightarrow> real list \<Rightarrow> real list \<Rightarrow> sim_kwargs \<Rightarrow> real \<Rightarrow> real
    \<Rightarrow> nat \<Rightarrow> sim_data \<Rightarrow> py_error + sim_data" where
  "sim_step fan Q_demand k_t kw rpm_lo rpm_hi i data =
     bind (np_index k_t i) (\<lambda>k.
     bind (np_index Q_demand i) (\<lambda>Qd.
     let eps_cfm = kw_eps_cfm kw; fixed_rpm = kw_fixed_rpm kw;
         pow = (\<lambda>Q rpm. power_model_convex fan Q rpm (kw_P_bep_ref_W kw) (kw_N_ref_rpm kw)
                  (kw_idle_frac kw) (kw_gamma_free kw) (kw_x_bep kw))
     in
     bind (operating_point_Q fan k fixed_rpm n_grid_default) (\<lambda>Qf.
     bind (pow Qf fixed_rpm) (\<lambda>Pf.
     let data = data\<lparr>Q_fixed := (Q_fixed data)[i := Qf], P_fixed := (P_fixed data)[i := Pf],
                     c_fixed := (c_fixed data)[i := (\<bar>Qf - Qd\<bar> \<le> eps_cfm)],
                     s_fixed := (s_fixed data)[i := max 0 (Qd - Qf - eps_cfm)],
                     o_fixed := (o_fixed data)[i := max 0 (Qf - Qd - eps_cfm)]\<rparr>
     in
     bind (choose_mode_min_power fan k (kw_speeds_rpm kw) Qd eps_cfm
             power_model_convex_default (kw_P_bep_ref_W kw) (kw_N_ref_rpm kw)) (\<lambda>(rpm_m, Qm).
     bind (pow Qm rpm_m) (\<lambda>Pm.
     let data = data\<lparr>rpm_modes := (rpm_modes data)[i := rpm_m],
                     Q_modes := (Q_modes data)[i := Qm], P_modes := (P_modes data)[i := Pm],
                     c_modes := (c_modes data)[i := (\<bar>Qm - Qd\<bar> \<le> eps_cfm)],
                     s_modes := (s_modes data)[i := max 0 (Qd - Qm - eps_cfm)],
                     o_modes := (o_modes data)[i := max 0 (Qm - Qd - eps_cfm)]\<rparr>
     in
     bind (solve_rpm_for_Q fan k Qd rpm_lo rpm_hi eps_cfm 24) (\<lambda>(rpm_v, Qv).
     bind (pow Qv rpm_v) (\<lambda>Pv.
       Inr (data\<lparr>rpm_var := (rpm_var data)[i := rpm_v],
                 Q_var := (Q_var data)[i := Qv], P_var := (P_var data)[i := Pv],
                 c_var := (c_var data)[i := (\<bar>Qv - Qd\<bar> \<le> eps_cfm)],
                 s_var := (s_var data)[i := max 0 (Qd - Qv - eps_cfm)],
                 o_var := (o_var data)[i := max 0 (Qv - Qd - eps_cfm)]\<rparr>)))))))))"

text \<open>\<open>for i in range(T)\<close>: the steps in order, stopping at the first exception.\<close>

fun sim_loop :: "(nat \<Rightarrow> sim_data \<Rightarrow> py_error + sim_data) \<Rightarrow> nat list \<Rightarrow> sim_data
    \<Rightarrow> py_error + sim_data" where
  "sim_loop step [] data = Inr data"
| "sim_loop step (i # is) data = bind (step i data) (sim_loop step is)"

text \<open>
  \<open>pd.DataFrame(data)\<close> raises \<open>ValueError\<close> unless all columns have the same length;
  every column but \<open>t\<close>, \<open>Qd\<close> and \<open>k\<close> was allocated with the length of \<open>t\<close>.
  The frame carries \<open>dt\<close> in its \<open>attrs\<close>.
\<close>

record dataframe =
  columns :: sim_data
  attrs_dt_s :: real

definition pd_DataFrame :: "sim_data \<Rightarrow> py_error + sim_data" where
  "pd_DataFrame data =
     (if length (col_Qd data) = length (col_t data) \<and> length (col_k data) = length (col_t data)
      then Inr data else Inl ValueError)"

text \<open>
  The aggregates of one strategy. \<open>c.sum() / len(c)\<close> divides two numpy scalars: on
  an empty frame it is \<open>nan\<close> (no exception), and so is the percentage; that is \<open>None\<close>.
\<close>

record aggregates =
  Wh :: real
  cfmh_delivered :: real
  cfmh_shortfall :: real
  cfmh_oversupply :: real
  compliance_pct :: "real option"
  SFP :: real
  objective :: real

definition agg :: "real \<Rightarrow> real \<Rightarrow> real list \<Rightarrow> real list \<Rightarrow> bool list \<Rightarrow> real list
    \<Rightarrow> real list \<Rightarrow> aggregates" where
  "agg dt lambda_shortfall P Q c s o' =
     (let Wh' = (sum_list P * dt) / 3600;
          delivered = (sum_list Q * dt) / 3600;
          shortfall = (sum_list s * dt) / 3600;
          oversupply = (sum_list o' * dt) / 3600;
          pct = (if length c = 0 then None
                 else Some (100 * (real (length (filter id c)) / real (length c))));
          SFP_W_per_CFM = Wh' / max delivered tiny;
          objective' = Wh' + lambda_shortfall * shortfall
      in \<lparr>Wh = Wh', cfmh_delivered = delivered, cfmh_shortfall = shortfall,
          cfmh_oversupply = oversupply, compliance_pct = pct, SFP = SFP_W_per_CFM,
          objective = objective'\<rparr>)"

record metrics =
  m_fixed :: aggregates
  m_modes :: aggregates
  m_var :: aggregates
  m_eps_cfm :: real
  m_lambda_shortfall :: real

definition run_time_sim :: "FanCurve \<Rightarrow> real list \<Rightarrow> real list \<Rightarrow> real list \<Rightarrow> sim_kwargs
    \<Rightarrow> py_error + (dataframe \<times> metrics)" where
  "run_time_sim fan t Q_demand k_t kw =
     bind (case kw_rpm_bounds kw of
             Some b \<Rightarrow> Inr b
           | None \<Rightarrow> bind (py_min (\<lambda>x. x) (kw_speeds_rpm kw)) (\<lambda>lo.
                     bind (py_max (\<lambda>x. x) (kw_speeds_rpm kw)) (\<lambda>hi. Inr (lo, hi))))
       (\<lambda>(rpm_lo, rpm_hi).
     let dt = (if length t > 1 then np_median (np_diff t) else 1);
         T = length t
     in
     bind (sim_loop (sim_step fan Q_demand k_t kw rpm_lo rpm_hi) [0..<T]
             (init_data t Q_demand k_t (kw_fixed_rpm kw))) (\<lambda>data.
     bind (pd_DataFrame data) (\<lambda>df.
       let lam = kw_lambda_shortfall kw in
       Inr (\<lparr>columns = df, attrs_dt_s = dt\<rparr>,
            \<lparr>m_fixed = agg dt lam (P_fixed df) (Q_fixed df) (c_fixed df) (s_fixed df) (o_fixed df),
             m_modes = agg dt lam (P_modes df) (Q_modes df) (c_modes df) (s_modes df) (o_modes df),
             m_var = agg dt lam (P_var df) (Q_var df) (c_var df) (s_var df) (o_var df),
             m_eps_cfm = kw_eps_cfm kw, m_lambda_shortfall = lam\<rparr>))))"

section \<open>main.py and params.py: the arguments of the run\<close>

text \<open>
  The keyword arguments with which \<open>main.py\<close> calls \<open>run_time_sim\<close>, from the
  singletons of \<open>params.py\<close>; its fan is \<open>FanCurve.from_bep(300.0, 120.0, 1200.0, 2.0)\<close>.
\<close>

definition main_kwargs :: sim_kwargs where
  "main_kwargs =
     \<lparr>kw_speeds_rpm = [700, 800, 900, 1000], kw_fixed_rpm = 900, kw_P_bep_ref_W = 40,
      kw_N_ref_rpm = 1200, kw_idle_frac = 0.22, kw_gamma_free = 2.0, kw_x_bep = 0.60,
      kw_rpm_bounds = Some (500, 2000), kw_eps_cfm = 5, kw_lambda_shortfall = 0.4\<rparr>"

section \<open>Predicates on the data of a run\<close>

text \<open>
  Two predicates in which the invariants of the simulation loop are stated; they are
  not part of the program. \<open>cols_len T data\<close>: every result column has length \<open>T\<close>.
  \<open>frame_ok Qd eps data i\<close>: in row \<open>i\<close> the compliance flag, the shortfall and the
  oversupply of each strategy are the ones computed from the delivered airflow of that
  row, the demand \<open>Qd ! i\<close> and the tolerance.
\<close>

definition cols_len :: "nat \<Rightarrow> sim_data \<Rightarrow> bool" where
  "cols_len T data \<longleftrightarrow>
     length (Q_fixed data) = T \<and> length (rpm_fixed data) = T \<and> length (P_fixed data) = T \<and>
     length (Q_modes data) = T \<and> length (rpm_modes data) = T \<and> length (P_modes data) = T \<and>
     length (Q_var data) = T \<and> length (rpm_var data) = T \<and> length (P_var data) = T \<and>
     length (c_fixed data) = T \<and> length (c_modes data) = T \<and> length (c_var data) = T \<and>
     length (s_fixed data) = T \<and> length (s_modes data) = T \<and> length (s_var data) = T \<and>
     length (o_fixed data) = T \<and> length (o_modes data) = T \<and> length (o_var data) = T"

definition strategy_ok :: "real \<Rightarrow> real \<Rightarrow> real \<Rightarrow> bool \<Rightarrow> real \<Rightarrow> real \<Rightarrow> bool" where
  "strategy_ok Qd eps Q c s o' \<longleftrightarrow>
     c = (\<bar>Q - Qd\<bar> \<le> eps) \<and> s = max 0 (Qd - Q - eps) \<and> o' = max 0 (Q - Qd - eps)"

definition frame_ok :: "real list \<Rightarrow> real \<Rightarrow> sim_data \<Rightarrow> nat \<Rightarrow> bool" where
  "frame_ok Qd eps data i \<longleftrightarrow>
     strategy_ok (Qd ! i) eps (Q_fixed data ! i) (c_fixed data ! i) (s_fixed data ! i) (o_fixed data ! i) \<and>
     strategy_ok (Qd ! i) eps (Q_modes data ! i) (c_modes data ! i) (s_modes data ! i) (o_modes data ! i) \<and>
     strategy_ok (Qd ! i) eps (Q_var data ! i) (c_var data ! i) (s_var data ! i) (o_var data ! i)"

text \<open>
  \<open>args_ok fan kw R\<close>: the arguments with which a run raises nothing. Neither reference
  speed is zero, there is a speed to choose from, every speed the run can reach (the
  listed speeds, the fixed speed, the bounds of the continuous range) is at most \<open>R\<close>
  in absolute value, and \<open>R\<close> is small enough for the Python powers of the speed
  ratios, and \<open>x_bep\<close> for its square, to stay in the range of float64.
\<close>

definition args_ok :: "FanCurve \<Rightarrow> sim_kwargs \<Rightarrow> real \<Rightarrow> bool" where
  "args_ok fan kw R \<longleftrightarrow>
     N_ref_rpm fan \<noteq> 0 \<and> kw_N_ref_rpm kw \<noteq> 0 \<and> kw_speeds_rpm kw \<noteq> [] \<and>
     (\<forall>rpm \<in> set (kw_speeds_rpm kw). \<bar>rpm\<bar> \<le> R) \<and> \<bar>kw_fixed_rpm kw\<bar> \<le> R \<and>
     (case kw_rpm_bounds kw of None \<Rightarrow> True | Some (lo, hi) \<Rightarrow> \<bar>lo\<bar> \<le> R \<and> \<bar>hi\<bar> \<le> R) \<and>
     (R / \<bar>N_ref_rpm fan\<bar>) ^ 2 < float_overflow \<and>
     (R / \<bar>kw_N_ref_rpm kw\<bar>) ^ 3 < float_overflow \<and>
     \<bar>kw_x_bep kw ^ 2\<bar> < float_overflow"

section \<open>Basic facts\<close>

lemma bind_Inr [simp]: "bind (Inr v) f = f v"
  by (simp add: bind_def)

lemma bind_Inl [simp]: "bind (Inl e) f = Inl e"
  by (simp add: bind_def)

lemma bind_eq_Inr: "bind r f = Inr y \<longleftrightarrow> (\<exists>v. r = Inr v \<and> f v = Inr y)"
  by (cases r) simp_all

lemma tiny_pos: "0 < tiny"
  by (simp add: tiny_def)

lemma free_delivery_ok:
  "N_ref_rpm fan \<noteq> 0 \<Longrightarrow>
   free_delivery_cfm fan N = Inr (Q_free_ref_cfm fan * (N / N_ref_rpm fan))"
  by (simp add: free_delivery_cfm_def py_div_def)

lemma py_pow_ok: "\<bar>a ^ n\<bar> < float_overflow \<Longrightarrow> py_pow a n = Inr (a ^ n)"
  by (simp add: py_pow_def)

lemma py_pow_overflow: "float_overflow \<le> \<bar>a ^ n\<bar> \<Longrightarrow> py_pow a n = Inl OverflowError"
  by (simp add: py_pow_def)

lemma float_overflow_pos: "0 < float_overflow"
  by (simp add: float_overflow_def)

lemma shutoff_pressure_ok:
  "N_ref_rpm fan \<noteq> 0 \<Longrightarrow> (N / N_ref_rpm fan) ^ 2 < float_overflow \<Longrightarrow>
   shutoff_pressure_Pa fan N = Inr (dP_shut_ref_Pa fan * (N / N_ref_rpm fan) ^ 2)"
  by (simp add: shutoff_pressure_Pa_def py_div_def py_pow_def)

lemma free_delivery_zero_ref:
  "N_ref_rpm fan = 0 \<Longrightarrow> free_delivery_cfm fan N = Inl ZeroDivisionError"
  by (simp add: free_delivery_cfm_def py_div_def)

lemma np_power_pos: "0 < n \<Longrightarrow> 0 \<le> x \<Longrightarrow> np_power x n = Some (x powr n)"
  by (simp add: np_power_def)

lemma dP_elem_nonneg: "0 \<le> dP_shut \<Longrightarrow> 0 \<le> dP_elem Q_free dP_shut n Q"
  by (simp add: dP_elem_def Let_def split: option.splits)

lemma dP_elem_formula:
  "0 < n \<Longrightarrow> dP_elem Q_free dP_shut n Q =
     dP_shut * max (1 - (min (max (Q / max Q_free tiny) 0) 10) powr n) 0"
  by (simp add: dP_elem_def Let_def np_clip_def np_power_pos)

section \<open>The fan curve is total and non-negative (C9)\<close>

text \<open>
  C9, as amended. For a fan whose reference speed is not zero and whose reference shutoff
  pressure is not negative, and for a speed at which the squared speed ratio and the
  shutoff pressure stay in the range of float64, \<open>dP_at\<close> raises nothing for any
  airflows, returns one pressure per airflow, and every pressure is non-negative and
  equal to \<open>shutoffPressure(N) * max(1 - x ** n, 0)\<close> with
  \<open>x = clamp(Q / max(freeDelivery(N), 1e-9), 0, 10)\<close>. Here \<open>x ** n\<close> is numpy's power
  (\<open>0 ** 0 = 1\<close>, and \<open>0 ** n = inf\<close> for \<open>n < 0\<close>, where the factor is \<open>0\<close>); for a
  positive shape exponent it is the real power \<open>x powr n\<close>.
\<close>

theorem dP_at_total_nonneg:
  assumes "N_ref_rpm fan \<noteq> 0" and "0 \<le> dP_shut_ref_Pa fan"
    and "(N / N_ref_rpm fan) ^ 2 < float_overflow"
    and "dP_shut_ref_Pa fan * (N / N_ref_rpm fan) ^ 2 < float_overflow"
  shows "\<exists>dP. dP_at fan Q_cfm N = Inr dP \<and> length dP = length Q_cfm \<and>
           (\<forall>p \<in> set dP. 0 \<le> p) \<and>
           dP = map (\<lambda>Q. dP_shut_ref_Pa fan * (N / N_ref_rpm fan) ^ 2 *
                  (case np_power
                          (min (max (Q / max (Q_free_ref_cfm fan * (N / N_ref_rpm fan)) tiny) 0) 10)
                          (n_shape fan) of
                     Some v \<Rightarrow> max (1 - v) 0 | None \<Rightarrow> 0)) Q_cfm \<and>
           (0 < n_shape fan \<longrightarrow>
              dP = map (\<lambda>Q. dP_shut_ref_Pa fan * (N / N_ref_rpm fan) ^ 2 *
                     max (1 - (min (max (Q / max (Q_free_ref_cfm fan * (N / N_ref_rpm fan)) tiny) 0) 10)
                                powr n_shape fan) 0) Q_cfm)"
proof -
  let ?Qf = "Q_free_ref_cfm fan * (N / N_ref_rpm fan)"
  let ?dPs = "dP_shut_ref_Pa fan * (N / N_ref_rpm fan) ^ 2"
  have eq: "dP_at fan Q_cfm N = Inr (map (dP_elem ?Qf ?dPs (n_shape fan)) Q_cfm)"
    using assms(1,3) by (simp add: dP_at_def free_delivery_ok shutoff_pressure_ok)
  have nn: "0 \<le> ?dPs" using assms(2) by simp
  have gen: "dP_elem ?Qf ?dPs (n_shape fan) = (\<lambda>Q. ?dPs *
                  (case np_power (min (max (Q / max ?Qf tiny) 0) 10) (n_shape fan) of
                     Some v \<Rightarrow> max (1 - v) 0 | None \<Rightarrow> 0))"
    by (rule ext) (simp only: dP_elem_def Let_def np_clip_def)
  have pos: "0 < n_shape fan \<Longrightarrow> dP_elem ?Qf ?dPs (n_shape fan) =
      (\<lambda>Q. ?dPs * max (1 - (min (max (Q / max ?Qf tiny) 0) 10) powr n_shape fan) 0)"
    by (rule ext) (rule dP_elem_formula)
  have all: "\<forall>p \<in> set (map (dP_elem ?Qf ?dPs (n_shape fan)) Q_cfm). 0 \<le> p"
    using nn by (auto simp: dP_elem_nonneg)
  have "length (map (dP_elem ?Qf ?dPs (n_shape fan)) Q_cfm) = length Q_cfm" by simp
  with eq all gen pos show ?thesis by metis
qed

theorem dP_at_total_nonneg_witness:
  "N_ref_rpm (from_bep 300 120 1200 2) \<noteq> 0 \<and> 0 \<le> dP_shut_ref_Pa (from_bep 300 120 1200 2) \<and>
   (900 / N_ref_rpm (from_bep 300 120 1200 2)) ^ 2 < float_overflow \<and>
   dP_shut_ref_Pa (from_bep 300 120 1200 2) * (900 / N_ref_rpm (from_bep 300 120 1200 2)) ^ 2
     < float_overflow \<and>
   dP_at (from_bep 300 120 1200 2) [250] 900 = Inr [125 / 2]"
proof -
  let ?fan = "from_bep 300 120 1200 2"
  have h1: "N_ref_rpm ?fan \<noteq> 0" by (simp add: from_bep_def)
  have h2: "0 \<le> dP_shut_ref_Pa ?fan" by (simp add: from_bep_def)
  have h3: "(900 / N_ref_rpm ?fan) ^ 2 < float_overflow"
    by (simp add: from_bep_def float_overflow_def power2_eq_square)
  have h4: "dP_shut_ref_Pa ?fan * (900 / N_ref_rpm ?fan) ^ 2 < float_overflow"
    by (simp add: from_bep_def float_overflow_def power2_eq_square)
  have n: "0 < n_shape ?fan" by (simp add: from_bep_def)
  from dP_at_total_nonneg [OF h1 h2 h3 h4, of "[250]"] n
  obtain dP where "dP_at ?fan [250] 900 = Inr dP" and
    "dP = map (\<lambda>Q. dP_shut_ref_Pa ?fan * (900 / N_ref_rpm ?fan) ^ 2 *
                     max (1 - (min (max (Q / max (Q_free_ref_cfm ?fan * (900 / N_ref_rpm ?fan)) tiny) 0) 10)
                                powr n_shape ?fan) 0) [250]"
    by blast
  then have "dP_at ?fan [250] 900 = Inr [125 / 2]"
    by (simp add: from_bep_def tiny_def power2_eq_square)
  with h1 h2 h3 h4 show ?thesis by blast
qed

text \<open>
  C9 as stated fails in two ways. A fan whose reference speed is zero: the quotient
  \<open>N_rpm / self.N_ref_rpm\<close> of Python floats raises \<open>ZeroDivisionError\<close>. And a speed
  of large magnitude: at \<open>N = 1e200\<close> the Python power \<open>(N_rpm / self.N_ref_rpm) ** 2\<close>
  raises \<open>OverflowError\<close>.
\<close>

theorem dP_at_raises_counterexample:
  "0 \<le> dP_shut_ref_Pa \<lparr>Q_free_ref_cfm = 500, dP_shut_ref_Pa = 200, N_ref_rpm = 0, n_shape = 2\<rparr> \<and>
   dP_at \<lparr>Q_free_ref_cfm = 500, dP_shut_ref_Pa = 200, N_ref_rpm = 0, n_shape = 2\<rparr> [100] 900
     = Inl ZeroDivisionError \<and>
   0 \<le> dP_shut_ref_Pa (from_bep 300 120 1200 2) \<and>
   dP_at (from_bep 300 120 1200 2) [100] (10 ^ 200) = Inl OverflowError"
proof -
  have "float_overflow \<le> \<bar>(10 ^ 200 / 1200 :: real) ^ 2\<bar>"
    by (simp add: float_overflow_def power_divide)
  then have "py_pow (10 ^ 200 / 1200) 2 = Inl OverflowError"
    by (rule py_pow_overflow)
  then have "dP_at (from_bep 300 120 1200 2) [100] (10 ^ 200) = Inl OverflowError"
    by (simp add: dP_at_def free_delivery_cfm_def shutoff_pressure_Pa_def py_div_def from_bep_def)
  then show ?thesis
    by (simp add: dP_at_def free_delivery_zero_ref from_bep_def)
qed

section \<open>The mode selector on an empty list of speeds (C10)\<close>

text \<open>
  C10. With an empty list of speeds \<open>choose_mode_min_power\<close> returns no pair: the list
  of triples and the list of feasible triples are empty, and \<open>max\<close> of the empty list
  raises \<open>ValueError\<close>.
\<close>

theorem choose_mode_empty_raises:
  "choose_mode_min_power fan k [] Q_target eps_cfm power_fn P_bep_ref_W N_ref = Inl ValueError"
  by (simp add: choose_mode_min_power_def)

section \<open>Facts about the library functions\<close>

lemma argmin_aux_scale:
  "0 < c \<Longrightarrow> argmin_aux bi (c * bv) i (map (\<lambda>x. c * x) xs) = argmin_aux bi bv i xs"
  by (induction xs arbitrary: bi bv i) simp_all

lemma np_argmin_scale:
  "0 < c \<Longrightarrow> np_argmin (map (\<lambda>x. c * x) xs) = np_argmin xs"
  by (cases xs) (simp_all add: argmin_aux_scale)

lemma argmin_aux_range:
  "argmin_aux bi bv i xs = bi \<or> (i \<le> argmin_aux bi bv i xs \<and> argmin_aux bi bv i xs < i + length xs)"
proof (induction xs arbitrary: bi bv i)
  case Nil
  then show ?case by simp
next
  case (Cons x xs)
  show ?case
  proof (cases "x < bv")
    case True
    with Cons [of i x "Suc i"] show ?thesis by auto
  next
    case False
    with Cons [of bi bv "Suc i"] show ?thesis by auto
  qed
qed

lemma np_argmin_range: "np_argmin xs = Inr j \<Longrightarrow> j < length xs"
proof (cases xs)
  case Nil
  then show "np_argmin xs = Inr j \<Longrightarrow> j < length xs" by simp
next
  case (Cons x ys)
  assume "np_argmin xs = Inr j"
  with Cons have "j = argmin_aux 0 x 1 ys" by simp
  with argmin_aux_range [of 0 x 1 ys] Cons show "j < length xs" by auto
qed

lemma np_argmin_total: "xs \<noteq> [] \<Longrightarrow> \<exists>j. np_argmin xs = Inr j"
  by (cases xs) simp_all

lemma argmin_aux_last:
  "z < bv \<Longrightarrow> \<forall>x \<in> set xs. z < x \<Longrightarrow> argmin_aux bi bv i (xs @ [z]) = i + length xs"
  by (induction xs arbitrary: bi bv i) simp_all

lemma np_argmin_last:
  assumes "xs \<noteq> []" and "\<forall>x \<in> set xs. z < x"
  shows "np_argmin (xs @ [z]) = Inr (length xs)"
proof -
  from assms(1) obtain x ys where xs: "xs = x # ys" by (cases xs) auto
  with assms(2) have "z < x" and "\<forall>y \<in> set ys. z < y" by auto
  then have "argmin_aux 0 x 1 (ys @ [z]) = 1 + length ys"
    by (rule argmin_aux_last)
  with xs show ?thesis by simp
qed

lemma np_linspace_length: "length (np_linspace a b n) = n"
  by (simp add: np_linspace_def)

lemma np_linspace_0: 
  "np_linspace 0 b n = map (\<lambda>i. real i * (b / real (n - 1))) [0..<n]"
  by (simp add: np_linspace_def)

section \<open>The operating point on the grid\<close>

text \<open>
  In exact arithmetic the mismatch of the two curves at every grid sample is the square
  of the speed ratio times a term that does not depend on the speed. The lemmas below
  use this form to show that the solver returns, and to evaluate it on a flat system
  curve, where the minimum is an exact zero at the last sample.
\<close>

lemma map2_same: "map2 f (map a xs) (map b xs) = map (\<lambda>x. f (a x) (b x)) xs"
  by (induction xs) simp_all

lemma dP_elem_grid:
  assumes "tiny < Qf"
  shows "dP_elem Qf dPs ns (real i * (Qf / d)) =
         dPs * (case np_power (np_clip (real i / d) 0 10) ns of Some p \<Rightarrow> max (1 - p) 0 | None \<Rightarrow> 0)"
proof -
  have "0 < Qf" using assms tiny_pos by linarith
  then have "real i * (Qf / d) / max Qf tiny = real i / d"
    using assms by (simp add: max_def)
  then show ?thesis by (simp add: dP_elem_def Let_def)
qed

lemma operating_point_Q_core:
  assumes free: "free_delivery_cfm fan rpm = Inr Qf"
    and shut: "shutoff_pressure_Pa fan rpm = Inr dPs"
    and big: "tiny < Qf"
  shows "operating_point_Q fan k rpm n =
         bind (np_argmin (map (\<lambda>i. \<bar>dP_elem Qf dPs (n_shape fan) (real i * (Qf / real (n - 1))) -
                   k * (real i * (Qf / real (n - 1))) ^ 2\<bar>) [0..<n]))
           (\<lambda>j. Inr (real j * (Qf / real (n - 1))))"
proof -
  let ?q = "\<lambda>i. real i * (Qf / real (n - 1))"
  let ?D = "\<lambda>i. \<bar>dP_elem Qf dPs (n_shape fan) (?q i) - k * (?q i) ^ 2\<bar>"
  have Q: "np_linspace 0 Qf n = map ?q [0..<n]" by (rule np_linspace_0)
  have dP: "dP_at fan (map ?q [0..<n]) rpm = Inr (map (dP_elem Qf dPs (n_shape fan)) (map ?q [0..<n]))"
    by (simp only: dP_at_def free shut bind_Inr)
  have diffs: "map2 (\<lambda>a b. \<bar>a - b\<bar>) (map (dP_elem Qf dPs (n_shape fan)) (map ?q [0..<n]))
                 (map (\<lambda>q. k * q ^ 2) (map ?q [0..<n])) = map ?D [0..<n]"
    by (simp only: map2_same map_map o_def)
  have nb: "\<not> Qf \<le> tiny" using big by simp
  have "operating_point_Q fan k rpm n =
          bind (np_argmin (map ?D [0..<n])) (\<lambda>j. Inr (map ?q [0..<n] ! j))"
    by (simp only: operating_point_Q_def free bind_Inr nb if_False Let_def Q dP diffs)
  also have "\<dots> = bind (np_argmin (map ?D [0..<n])) (\<lambda>j. Inr (?q j))"
  proof (cases "np_argmin (map ?D [0..<n])")
    case (Inl e)
    then show ?thesis by simp
  next
    case (Inr j)
    then have "j < n" using np_argmin_range [OF Inr] by simp
    then have "map ?q [0..<n] ! j = ?q j" by simp
    with Inr show ?thesis by (simp only: bind_Inr)
  qed
  finally show ?thesis .
qed

lemma operating_point_Q_grid:
  assumes nz: "N_ref_rpm fan \<noteq> 0"
    and big: "tiny < Q_free_ref_cfm fan * (rpm / N_ref_rpm fan)"
    and ov: "(rpm / N_ref_rpm fan) ^ 2 < float_overflow"
  shows "operating_point_Q fan k rpm n =
         bind (np_argmin (map (\<lambda>i. \<bar>dP_shut_ref_Pa fan *
                   (case np_power (np_clip (real i / real (n - 1)) 0 10) (n_shape fan) of
                      Some p \<Rightarrow> max (1 - p) 0 | None \<Rightarrow> 0) -
                   k * (real i * (Q_free_ref_cfm fan / real (n - 1))) ^ 2\<bar>) [0..<n]))
           (\<lambda>j. Inr (real j * (Q_free_ref_cfm fan * (rpm / N_ref_rpm fan) / real (n - 1))))"
proof -
  define r where "r = rpm / N_ref_rpm fan"
  define Qf where "Qf = Q_free_ref_cfm fan * r"
  define dPs where "dPs = dP_shut_ref_Pa fan * r ^ 2"
  let ?h = "\<lambda>i. (case np_power (np_clip (real i / real (n - 1)) 0 10) (n_shape fan) of
                      Some p \<Rightarrow> max (1 - p) 0 | None \<Rightarrow> 0)"
  let ?G = "\<lambda>i. \<bar>dP_shut_ref_Pa fan * ?h i - k * (real i * (Q_free_ref_cfm fan / real (n - 1))) ^ 2\<bar>"
  have free: "free_delivery_cfm fan rpm = Inr Qf"
    unfolding Qf_def r_def using nz by (rule free_delivery_ok)
  have shut: "shutoff_pressure_Pa fan rpm = Inr dPs"
    unfolding dPs_def r_def using nz ov by (rule shutoff_pressure_ok)
  have bigQ: "tiny < Qf" using big by (simp only: Qf_def r_def)
  have r0: "r \<noteq> 0" using bigQ tiny_pos by (auto simp: Qf_def)
  then have r2: "0 < r ^ 2" by simp
  have elem: "\<bar>dP_elem Qf dPs (n_shape fan) (real i * (Qf / real (n - 1))) -
               k * (real i * (Qf / real (n - 1))) ^ 2\<bar> = r ^ 2 * ?G i" for i
  proof -
    have "dP_elem Qf dPs (n_shape fan) (real i * (Qf / real (n - 1))) -
               k * (real i * (Qf / real (n - 1))) ^ 2 =
          r ^ 2 * (dP_shut_ref_Pa fan * ?h i - k * (real i * (Q_free_ref_cfm fan / real (n - 1))) ^ 2)"
      unfolding dP_elem_grid [OF bigQ] by (simp add: Qf_def dPs_def algebra_simps power2_eq_square)
    then show ?thesis using r2 by (simp only: abs_mult abs_of_pos)
  qed
  have am: "np_argmin (map (\<lambda>i. r ^ 2 * ?G i) [0..<n]) = np_argmin (map ?G [0..<n])"
    using np_argmin_scale [OF r2, of "map ?G [0..<n]"] by (simp only: map_map o_def)
  show ?thesis
    unfolding operating_point_Q_core [OF free shut bigQ] elem am
    by (simp only: Qf_def r_def)
qed

lemma operating_point_Q_small:
  assumes "N_ref_rpm fan \<noteq> 0" and "Q_free_ref_cfm fan * (rpm / N_ref_rpm fan) \<le> tiny"
  shows "operating_point_Q fan k rpm n = Inr 0"
  using assms by (simp add: operating_point_Q_def free_delivery_ok)

lemma operating_point_Q_total:
  assumes "N_ref_rpm fan \<noteq> 0" and "0 < n"
    and ov: "(rpm / N_ref_rpm fan) ^ 2 < float_overflow"
  shows "\<exists>Q. operating_point_Q fan k rpm n = Inr Q \<and> 0 \<le> Q"
proof (cases "Q_free_ref_cfm fan * (rpm / N_ref_rpm fan) \<le> tiny")
  case True
  with assms show ?thesis by (simp add: operating_point_Q_small)
next
  case False
  then have big: "tiny < Q_free_ref_cfm fan * (rpm / N_ref_rpm fan)" by simp
  let ?G = "\<lambda>i. \<bar>dP_shut_ref_Pa fan *
                   (case np_power (np_clip (real i / real (n - 1)) 0 10) (n_shape fan) of
                      Some p \<Rightarrow> max (1 - p) 0 | None \<Rightarrow> 0) -
                   k * (real i * (Q_free_ref_cfm fan / real (n - 1))) ^ 2\<bar>"
  have "map ?G [0..<n] \<noteq> []" using assms(2) by simp
  then obtain j where j: "np_argmin (map ?G [0..<n]) = Inr j"
    using np_argmin_total by blast
  have "0 \<le> Q_free_ref_cfm fan * (rpm / N_ref_rpm fan)"
    using big tiny_pos by linarith
  then have "0 \<le> Q_free_ref_cfm fan * (rpm / N_ref_rpm fan) / real (n - 1)"
    by (rule divide_nonneg_nonneg) simp
  then have "0 \<le> real j * (Q_free_ref_cfm fan * (rpm / N_ref_rpm fan) / real (n - 1))"
    by (rule mult_nonneg_nonneg [rotated]) simp
  with j show ?thesis
    unfolding operating_point_Q_grid [OF assms(1) big ov] by simp
qed

section \<open>The operating point without resistance\<close>

text \<open>
  With \<open>k = 0\<close> the system curve is flat at zero, the fan curve is positive before free
  delivery and zero at it, and the grid search returns the free delivery itself. The
  closed form evaluates the solver at concrete inputs without unfolding the grid.
\<close>

lemma operating_point_Q_free_flow:
  assumes nz: "N_ref_rpm fan \<noteq> 0"
    and big: "tiny < Q_free_ref_cfm fan * (rpm / N_ref_rpm fan)"
    and ov: "(rpm / N_ref_rpm fan) ^ 2 < float_overflow"
    and shut: "0 < dP_shut_ref_Pa fan"
    and shape: "0 < n_shape fan"
    and grid: "2 \<le> n"
  shows "operating_point_Q fan 0 rpm n = Inr (Q_free_ref_cfm fan * (rpm / N_ref_rpm fan))"
proof -
  obtain m where n: "n = Suc m" and m: "0 < m"
    using grid by (cases n) auto
  let ?h = "\<lambda>i. (case np_power (np_clip (real i / real m) 0 10) (n_shape fan) of
                      Some p \<Rightarrow> max (1 - p) 0 | None \<Rightarrow> 0)"
  let ?G = "\<lambda>i. \<bar>dP_shut_ref_Pa fan * ?h i - 0 * (real i * (Q_free_ref_cfm fan / real m)) ^ 2\<bar>"
  have last: "?G m = 0"
    using m shape by (simp add: np_clip_def np_power_def)
  have before: "0 < ?G i" if "i < m" for i
  proof -
    have x0: "0 \<le> real i / real m" by simp
    have x1: "real i / real m < 1" using that m by simp
    have clip: "np_clip (real i / real m) 0 10 = real i / real m"
      using x0 x1 by (simp add: np_clip_def)
    have "(real i / real m) powr n_shape fan < 1 powr n_shape fan"
      using shape x0 x1 by (rule powr_less_mono2)
    then have "(real i / real m) powr n_shape fan < 1" by simp
    then have "0 < ?h i"
      unfolding clip np_power_pos [OF shape x0] by simp
    then have "0 < dP_shut_ref_Pa fan * ?h i"
      using shut by (rule mult_pos_pos [rotated])
    then show ?thesis by simp
  qed
  have ne: "map ?G [0..<m] \<noteq> []" using m by simp
  have all: "\<forall>x \<in> set (map ?G [0..<m]). ?G m < x"
    unfolding last using before by auto
  have "np_argmin (map ?G [0..<Suc m]) = Inr m"
    using np_argmin_last [OF ne all] by simp
  moreover have "real m * (Q_free_ref_cfm fan * (rpm / N_ref_rpm fan) / real m)
                   = Q_free_ref_cfm fan * (rpm / N_ref_rpm fan)"
    using m by simp
  ultimately show ?thesis
    unfolding operating_point_Q_grid [OF nz big ov] n by (simp del: upt_Suc)
qed

text \<open>The fan of \<open>main.py\<close>: \<open>FanCurve.from_bep(300, 120, 1200, 2.0)\<close>.\<close>

lemma demo_fan_free_flow:
  assumes "1 \<le> rpm" and "rpm \<le> 10 ^ 6"
  shows "operating_point_Q (from_bep 300 120 1200 2) 0 rpm n_grid_default = Inr (5 * rpm / 12)"
proof -
  let ?fan = "from_bep 300 120 1200 2"
  have f: "Q_free_ref_cfm ?fan * (rpm / N_ref_rpm ?fan) = 5 * rpm / 12"
    by (simp add: from_bep_def)
  have "tiny < 5 * rpm / 12"
    using assms by (simp add: tiny_def)
  then have big: "tiny < Q_free_ref_cfm ?fan * (rpm / N_ref_rpm ?fan)" by (simp only: f)
  have "(rpm / 1200) ^ 2 \<le> (10 ^ 6 / 1200) ^ 2"
    using assms by (intro power_mono divide_right_mono) simp_all
  also have "\<dots> < float_overflow"
    by (simp add: float_overflow_def power_divide)
  finally have ov: "(rpm / N_ref_rpm ?fan) ^ 2 < float_overflow"
    by (simp add: from_bep_def)
  have "operating_point_Q ?fan 0 rpm n_grid_default = Inr (Q_free_ref_cfm ?fan * (rpm / N_ref_rpm ?fan))"
    by (rule operating_point_Q_free_flow [OF _ big ov]) (simp_all add: from_bep_def n_grid_default_def)
  then show ?thesis by (simp only: f)
qed

section \<open>The speed solver clamps to its bounds (C2)\<close>

text \<open>
  C2, as amended. Let \<open>Q_lo\<close> and \<open>Q_hi\<close> be the operating airflows at \<open>rpm_lo\<close> and
  \<open>rpm_hi\<close>. Whatever the number of iterations, \<open>solve_rpm_for_Q\<close> returns exactly
  \<open>(rpm_lo, Q_lo)\<close> when the target is at most \<open>Q_lo + eps\<close>, and exactly
  \<open>(rpm_hi, Q_hi)\<close> when the target is above \<open>Q_lo + eps\<close> and at least \<open>Q_hi - eps\<close>.
  In particular a target above \<open>Q_hi\<close> yields \<open>(rpm_hi, Q_hi)\<close> when it is also above
  \<open>Q_lo + eps\<close> and the tolerance is not negative.
\<close>

theorem solve_rpm_for_Q_clamps:
  assumes lo: "operating_point_Q fan k rpm_lo n_grid_default = Inr Q_lo"
    and hi: "operating_point_Q fan k rpm_hi n_grid_default = Inr Q_hi"
  shows "(Q_target \<le> Q_lo + eps_cfm \<longrightarrow>
            solve_rpm_for_Q fan k Q_target rpm_lo rpm_hi eps_cfm iters = Inr (rpm_lo, Q_lo)) \<and>
         (Q_lo + eps_cfm < Q_target \<and> Q_hi - eps_cfm \<le> Q_target \<longrightarrow>
            solve_rpm_for_Q fan k Q_target rpm_lo rpm_hi eps_cfm iters = Inr (rpm_hi, Q_hi)) \<and>
         (Q_lo + eps_cfm < Q_target \<and> 0 \<le> eps_cfm \<and> Q_hi < Q_target \<longrightarrow>
            solve_rpm_for_Q fan k Q_target rpm_lo rpm_hi eps_cfm iters = Inr (rpm_hi, Q_hi))"
  by (simp add: solve_rpm_for_Q_def lo hi)

theorem solve_rpm_for_Q_clamps_witness:
  "operating_point_Q (from_bep 300 120 1200 2) 0 600 n_grid_default = Inr 250 \<and>
   operating_point_Q (from_bep 300 120 1200 2) 0 1200 n_grid_default = Inr 500 \<and>
   solve_rpm_for_Q (from_bep 300 120 1200 2) 0 100 600 1200 10 24 = Inr (600, 250) \<and>
   solve_rpm_for_Q (from_bep 300 120 1200 2) 0 495 600 1200 10 24 = Inr (1200, 500) \<and>
   solve_rpm_for_Q (from_bep 300 120 1200 2) 0 600 600 1200 10 24 = Inr (1200, 500)"
proof -
  have lo: "operating_point_Q (from_bep 300 120 1200 2) 0 600 n_grid_default = Inr 250"
    using demo_fan_free_flow [of 600] by simp
  have hi: "operating_point_Q (from_bep 300 120 1200 2) 0 1200 n_grid_default = Inr 500"
    using demo_fan_free_flow [of 1200] by simp
  show ?thesis
    using solve_rpm_for_Q_clamps [OF lo hi, of 100 10 24]
      solve_rpm_for_Q_clamps [OF lo hi, of 495 10 24]
      solve_rpm_for_Q_clamps [OF lo hi, of 600 10 24] lo hi
    by simp
qed

text \<open>
  C2 as stated fails where the two bounds deliver airflows less than a tolerance apart:
  with operating airflows 500 at \<open>rpm_lo = 1200\<close> and 505 at \<open>rpm_hi = 1212\<close>, the
  target 508 is above the airflow at \<open>rpm_hi\<close>, but it is within the tolerance 10 of
  the airflow at \<open>rpm_lo\<close>, the first test succeeds and the solver returns \<open>rpm_lo\<close>.
\<close>

theorem solve_rpm_for_Q_above_hi_counterexample:
  "operating_point_Q (from_bep 300 120 1200 2) 0 1212 n_grid_default = Inr 505 \<and>
   (505 :: real) < 508 \<and>
   solve_rpm_for_Q (from_bep 300 120 1200 2) 0 508 1200 1212 10 24 = Inr (1200, 500)"
proof -
  have lo: "operating_point_Q (from_bep 300 120 1200 2) 0 1200 n_grid_default = Inr 500"
    using demo_fan_free_flow [of 1200] by simp
  have hi: "operating_point_Q (from_bep 300 120 1200 2) 0 1212 n_grid_default = Inr 505"
    using demo_fan_free_flow [of 1212] by simp
  show ?thesis
    by (simp add: solve_rpm_for_Q_def lo hi)
qed

section \<open>The power model (C7)\<close>

lemma milli_pos: "0 < milli"
  by (simp add: milli_def)

lemma power_coeffs_default: "power_coeffs 0.22 2 0.6 = Inr (0.22, 0.58, 1.2)"
  by (simp add: power_coeffs_def py_pow_def float_overflow_def Let_def tiny_def milli_def
        power2_eq_square)

lemma power_coeffs_shape:
  assumes "power_coeffs idle_frac gamma_free x_bep = Inr (p0, b1, b2)"
  shows "p0 = idle_frac \<and> 0 < b2 \<and> p0 + b1 + b2 = gamma_free"
proof -
  have "0 < max (0.2 * (gamma_free - 1)) milli"
    using milli_pos by (simp add: less_max_iff_disj)
  then show ?thesis
    using assms
    by (auto simp: power_coeffs_def bind_eq_Inr Let_def split: if_splits)
qed

lemma power_model_convex_ok:
  assumes "N_ref_rpm fan \<noteq> 0" and "N_ref \<noteq> 0"
    and "power_coeffs idle_frac gamma_free x_bep = Inr (p0, b1, b2)"
    and "\<bar>(rpm / N_ref) ^ 3\<bar> < float_overflow"
  shows "power_model_convex fan Q_cfm rpm P_bep_ref_W N_ref idle_frac gamma_free x_bep =
         Inr (P_bep_ref_W * (rpm / N_ref) ^ 3 *
              (p0 + b1 * np_clip (Q_cfm / max (Q_free_ref_cfm fan * (rpm / N_ref_rpm fan)) tiny) 0 1 +
               b2 * (np_clip (Q_cfm / max (Q_free_ref_cfm fan * (rpm / N_ref_rpm fan)) tiny) 0 1) ^ 2))"
  using assms
  by (simp add: power_model_convex_def free_delivery_ok py_div_def py_pow_ok Let_def)




section \<open>The mode selector (C1)\<close>

lemma min_aux_first:
  assumes "\<forall>y \<in> set pre0. key best < key y" and "\<forall>y \<in> set mid0. key best \<le> key y"
  shows "\<exists>pre post. pre0 @ best # mid0 @ xs = pre @ min_aux key best xs # post \<and>
           (\<forall>y \<in> set pre. key (min_aux key best xs) < key y) \<and>
           (\<forall>y \<in> set post. key (min_aux key best xs) \<le> key y)"
  using assms
proof (induction xs arbitrary: best pre0 mid0)
  case Nil
  then show ?case by auto
next
  case (Cons x xs)
  show ?case
  proof (cases "key x < key best")
    case True
    have a: "\<forall>y \<in> set (pre0 @ best # mid0). key x < key y"
      using True Cons.prems by fastforce
    have b: "\<forall>y \<in> set ([] :: 'a list). key x \<le> key y" by simp
    from Cons.IH [OF a b] True show ?thesis by simp
  next
    case False
    have b: "\<forall>y \<in> set (mid0 @ [x]). key best \<le> key y"
      using False Cons.prems by auto
    from Cons.IH [OF Cons.prems(1) b] False show ?thesis by simp
  qed
qed

lemma py_min_first:
  assumes "py_min key xs = Inr m"
  shows "\<exists>pre post. xs = pre @ m # post \<and> (\<forall>y \<in> set pre. key m < key y) \<and>
           (\<forall>y \<in> set post. key m \<le> key y)"
proof (cases xs)
  case Nil
  with assms show ?thesis by simp
next
  case (Cons x ys)
  with assms have m: "m = min_aux key x ys" by simp
  from min_aux_first [of "[]" key x "[]" ys] show ?thesis
    unfolding Cons m by simp
qed

lemma max_aux_first:
  assumes "\<forall>y \<in> set pre0. key y < key best" and "\<forall>y \<in> set mid0. key y \<le> key best"
  shows "\<exists>pre post. pre0 @ best # mid0 @ xs = pre @ max_aux key best xs # post \<and>
           (\<forall>y \<in> set pre. key y < key (max_aux key best xs)) \<and>
           (\<forall>y \<in> set post. key y \<le> key (max_aux key best xs))"
  using assms
proof (induction xs arbitrary: best pre0 mid0)
  case Nil
  then show ?case by auto
next
  case (Cons x xs)
  show ?case
  proof (cases "key best < key x")
    case True
    have a: "\<forall>y \<in> set (pre0 @ best # mid0). key y < key x"
      using True Cons.prems by fastforce
    have b: "\<forall>y \<in> set ([] :: 'a list). key y \<le> key x" by simp
    from Cons.IH [OF a b] True show ?thesis by simp
  next
    case False
    have b: "\<forall>y \<in> set (mid0 @ [x]). key y \<le> key best"
      using False Cons.prems by auto
    from Cons.IH [OF Cons.prems(1) b] False show ?thesis by simp
  qed
qed

lemma py_max_first:
  assumes "py_max key xs = Inr m"
  shows "\<exists>pre post. xs = pre @ m # post \<and> (\<forall>y \<in> set pre. key y < key m) \<and>
           (\<forall>y \<in> set post. key y \<le> key m)"
proof (cases xs)
  case Nil
  with assms show ?thesis by simp
next
  case (Cons x ys)
  with assms have m: "m = max_aux key x ys" by simp
  from max_aux_first [of "[]" key x "[]" ys] show ?thesis
    unfolding Cons m by simp
qed

lemma py_min_total: "xs \<noteq> [] \<Longrightarrow> \<exists>m. py_min key xs = Inr m"
  by (cases xs) simp_all

lemma py_max_total: "xs \<noteq> [] \<Longrightarrow> \<exists>m. py_max key xs = Inr m"
  by (cases xs) simp_all

lemma mode_triples_result:
  assumes "mode_triples fan k speeds power_fn P_bep_ref_W N_ref = Inr triples"
  shows "map fst triples = speeds \<and>
         (\<forall>(rpm, Qop, P) \<in> set triples.
            operating_point_Q fan k rpm n_grid_default = Inr Qop \<and>
            power_fn fan Qop rpm P_bep_ref_W N_ref = Inr P)"
  using assms
proof (induction speeds arbitrary: triples)
  case Nil
  then show ?case by simp
next
  case (Cons rpm speeds)
  from Cons.prems obtain Qop P rest where
    q: "operating_point_Q fan k rpm n_grid_default = Inr Qop"
    and p: "power_fn fan Qop rpm P_bep_ref_W N_ref = Inr P"
    and r: "mode_triples fan k speeds power_fn P_bep_ref_W N_ref = Inr rest"
    and t: "triples = (rpm, Qop, P) # rest"
    by (auto simp: bind_eq_Inr)
  from Cons.IH [OF r] q p t show ?case by simp
qed

lemma filter_split:
  assumes "filter P xs = ys @ z # zs"
  shows "\<exists>us vs. xs = us @ z # vs \<and> filter P us = ys \<and> filter P vs = zs"
  using assms
proof (induction xs arbitrary: ys)
  case Nil
  then show ?case by simp
next
  case (Cons x xs)
  show ?case
  proof (cases "P x")
    case False
    with Cons.prems have "filter P xs = ys @ z # zs" by simp
    from Cons.IH [OF this] obtain us vs where
      "xs = us @ z # vs" "filter P us = ys" "filter P vs = zs" by blast
    with False have "x # xs = (x # us) @ z # vs \<and> filter P (x # us) = ys \<and> filter P vs = zs"
      by simp
    then show ?thesis by blast
  next
    case True
    with Cons.prems have eq: "x # filter P xs = ys @ z # zs" by simp
    show ?thesis
    proof (cases ys)
      case Nil
      with eq have "x # xs = [] @ z # xs \<and> filter P [] = ys \<and> filter P xs = zs" by simp
      then show ?thesis by blast
    next
      case (Cons y ys')
      with eq have x: "x = y" and "filter P xs = ys' @ z # zs" by simp_all
      from Cons.IH [OF this(2)] obtain us vs where
        "xs = us @ z # vs" "filter P us = ys'" "filter P vs = zs" by blast
      with True x Cons have "x # xs = (x # us) @ z # vs \<and> filter P (x # us) = ys \<and> filter P vs = zs"
        by simp
      then show ?thesis by blast
    qed
  qed
qed

text \<open>
  C1. For a non-empty list of speeds at each of which the operating airflow and the
  power are computed (the triples), \<open>choose_mode_min_power\<close> returns the speed and
  airflow of one triple, at some position of the list. A triple is feasible iff its
  airflow is at least \<open>Q_target - eps_cfm\<close>. If some triple is feasible, the chosen one is
  feasible, its power is strictly below the power of every feasible triple before it and
  at most the power of every feasible triple after it: the minimum power among the
  feasible speeds, the first in list order on ties. If none is feasible, its airflow is
  strictly above every airflow before it and at least every airflow after it: the
  maximal airflow, whatever its power.
\<close>

theorem choose_mode_min_power_selects:
  assumes ne: "speeds_rpm \<noteq> []"
    and tr: "mode_triples fan k speeds_rpm power_fn P_bep_ref_W N_ref = Inr triples"
  shows "map fst triples = speeds_rpm \<and>
         (\<forall>(rpm, Qop, P) \<in> set triples.
            operating_point_Q fan k rpm n_grid_default = Inr Qop \<and>
            power_fn fan Qop rpm P_bep_ref_W N_ref = Inr P) \<and>
         (\<exists>pre rpm Qop P post.
            triples = pre @ (rpm, Qop, P) # post \<and>
            choose_mode_min_power fan k speeds_rpm Q_target eps_cfm power_fn P_bep_ref_W N_ref
              = Inr (rpm, Qop) \<and>
            (if \<exists>(r, q, p) \<in> set triples. q \<ge> Q_target - eps_cfm
             then Qop \<ge> Q_target - eps_cfm \<and>
                  (\<forall>(r, q, p) \<in> set pre. q \<ge> Q_target - eps_cfm \<longrightarrow> P < p) \<and>
                  (\<forall>(r, q, p) \<in> set post. q \<ge> Q_target - eps_cfm \<longrightarrow> P \<le> p)
             else (\<forall>(r, q, p) \<in> set pre. q < Qop) \<and>
                  (\<forall>(r, q, p) \<in> set post. q \<le> Qop)))"
proof -
  let ?F = "\<lambda>(rpm, Qop, P). Qop \<ge> Q_target - eps_cfm"
  let ?feas = "filter ?F triples"
  note res = mode_triples_result [OF tr]
  have tne: "triples \<noteq> []" using res ne by auto
  have sel: "\<exists>pre rpm Qop P post.
            triples = pre @ (rpm, Qop, P) # post \<and>
            choose_mode_min_power fan k speeds_rpm Q_target eps_cfm power_fn P_bep_ref_W N_ref
              = Inr (rpm, Qop) \<and>
            (if \<exists>(r, q, p) \<in> set triples. q \<ge> Q_target - eps_cfm
             then Qop \<ge> Q_target - eps_cfm \<and>
                  (\<forall>(r, q, p) \<in> set pre. q \<ge> Q_target - eps_cfm \<longrightarrow> P < p) \<and>
                  (\<forall>(r, q, p) \<in> set post. q \<ge> Q_target - eps_cfm \<longrightarrow> P \<le> p)
             else (\<forall>(r, q, p) \<in> set pre. q < Qop) \<and>
                  (\<forall>(r, q, p) \<in> set post. q \<le> Qop))"
  proof (cases "?feas = []")
    case True
    then have none: "\<not> (\<exists>(r, q, p) \<in> set triples. q \<ge> Q_target - eps_cfm)"
      by (auto simp: filter_empty_conv)
    obtain m where m: "py_max (\<lambda>z. fst (snd z)) triples = Inr m"
      using py_max_total [OF tne] by blast
    obtain rpm Qop P where mt: "m = (rpm, Qop, P)" by (cases m) auto
    from py_max_first [OF m] obtain pre post where
      d: "triples = pre @ (rpm, Qop, P) # post"
      and a: "\<forall>y \<in> set pre. fst (snd y) < Qop"
      and b: "\<forall>y \<in> set post. fst (snd y) \<le> Qop"
      unfolding mt by auto
    have "choose_mode_min_power fan k speeds_rpm Q_target eps_cfm power_fn P_bep_ref_W N_ref
            = Inr (rpm, Qop)"
      using True m by (simp add: choose_mode_min_power_def tr mt)
    with d a b none show ?thesis
      by (intro exI [of _ pre] exI [of _ rpm] exI [of _ Qop] exI [of _ P] exI [of _ post])
         (auto simp del: set_append)
  next
    case False
    then have some: "\<exists>(r, q, p) \<in> set triples. q \<ge> Q_target - eps_cfm"
      by (auto simp: filter_empty_conv)
    obtain m where m: "py_min (\<lambda>z. snd (snd z)) ?feas = Inr m"
      using py_min_total [OF False] by blast
    obtain rpm Qop P where mt: "m = (rpm, Qop, P)" by (cases m) auto
    from py_min_first [OF m] obtain pre' post' where
      d': "?feas = pre' @ (rpm, Qop, P) # post'"
      and a': "\<forall>y \<in> set pre'. P < snd (snd y)"
      and b': "\<forall>y \<in> set post'. P \<le> snd (snd y)"
      unfolding mt by auto
    from filter_split [OF d'] obtain pre post where
      d: "triples = pre @ (rpm, Qop, P) # post"
      and fa: "filter ?F pre = pre'" and fb: "filter ?F post = post'"
      by blast
    have "(rpm, Qop, P) \<in> set ?feas" unfolding d' by simp
    then have feas: "Qop \<ge> Q_target - eps_cfm" by simp
    have a: "\<forall>(r, q, p) \<in> set pre. q \<ge> Q_target - eps_cfm \<longrightarrow> P < p"
      using a' unfolding fa [symmetric] by auto
    have b: "\<forall>(r, q, p) \<in> set post. q \<ge> Q_target - eps_cfm \<longrightarrow> P \<le> p"
      using b' unfolding fb [symmetric] by auto
    have "choose_mode_min_power fan k speeds_rpm Q_target eps_cfm power_fn P_bep_ref_W N_ref
            = Inr (rpm, Qop)"
      using False m by (simp add: choose_mode_min_power_def tr mt)
    with d a b feas some show ?thesis
      by (intro exI [of _ pre] exI [of _ rpm] exI [of _ Qop] exI [of _ P] exI [of _ post])
         (simp del: set_append)
  qed
  from res sel show ?thesis by blast
qed

lemma demo_fan_power_default:
  assumes "0 \<le> rpm" and "rpm \<le> 10 ^ 6"
  shows "power_model_convex_default (from_bep 300 120 1200 2) Q rpm 40 1200 =
     Inr (40 * (rpm / 1200) ^ 3 *
          (0.22 + 0.58 * np_clip (Q / max (5 * rpm / 12) tiny) 0 1 +
           1.2 * (np_clip (Q / max (5 * rpm / 12) tiny) 0 1) ^ 2))"
proof -
  have h1: "N_ref_rpm (from_bep 300 120 1200 2) \<noteq> 0" by (simp add: from_bep_def)
  have f: "Q_free_ref_cfm (from_bep 300 120 1200 2) * (rpm / N_ref_rpm (from_bep 300 120 1200 2))
             = 5 * rpm / 12"
    by (simp add: from_bep_def)
  have "power_model_convex (from_bep 300 120 1200 2) Q rpm 40 1200 0.22 2 0.6 =
     Inr (40 * (rpm / 1200) ^ 3 *
          (0.22 + 0.58 * np_clip (Q / max (Q_free_ref_cfm (from_bep 300 120 1200 2) *
              (rpm / N_ref_rpm (from_bep 300 120 1200 2))) tiny) 0 1 +
           1.2 * (np_clip (Q / max (Q_free_ref_cfm (from_bep 300 120 1200 2) *
              (rpm / N_ref_rpm (from_bep 300 120 1200 2))) tiny) 0 1) ^ 2))"
  proof (rule power_model_convex_ok [OF h1 _ power_coeffs_default])
    have "(rpm / 1200) ^ 3 \<le> (10 ^ 6 / 1200) ^ 3"
      using assms by (intro power_mono divide_right_mono) simp_all
    also have "\<dots> < float_overflow"
      by (simp add: float_overflow_def power_divide)
    finally show "\<bar>(rpm / 1200) ^ 3\<bar> < float_overflow"
      using assms by simp
  qed simp
  then show ?thesis
    unfolding f power_model_convex_default_def by simp
qed

lemma demo_triples:
  "mode_triples (from_bep 300 120 1200 2) 0 [700, 800, 900, 1000] power_model_convex_default 40 1200
     = Inr [(700, 875 / 3, 1715 / 108), (800, 1000 / 3, 640 / 27), (900, 375, 135 / 4),
            (1000, 1250 / 3, 1250 / 27)]"
  by (simp add: demo_fan_free_flow demo_fan_power_default np_clip_def tiny_def
        power2_eq_square power3_eq_cube)

theorem choose_mode_min_power_selects_witness:
  "[700, 800, 900, 1000] \<noteq> ([] :: real list) \<and>
   mode_triples (from_bep 300 120 1200 2) 0 [700, 800, 900, 1000] power_model_convex_default 40 1200
     = Inr [(700, 875 / 3, 1715 / 108), (800, 1000 / 3, 640 / 27), (900, 375, 135 / 4),
            (1000, 1250 / 3, 1250 / 27)] \<and>
   choose_mode_min_power (from_bep 300 120 1200 2) 0 [700, 800, 900, 1000] 300 5
     power_model_convex_default 40 1200 = Inr (800, 1000 / 3)"
proof -
  have ne: "[700, 800, 900, 1000] \<noteq> ([] :: real list)" by simp
  from choose_mode_min_power_selects [OF ne demo_triples, of 300 5]
  obtain pre rpm Qop P post where
    d: "[(700, 875 / 3, 1715 / 108), (800, 1000 / 3, 640 / 27), (900, 375, 135 / 4),
            (1000 :: real, 1250 / 3 :: real, 1250 / 27 :: real)] = pre @ (rpm, Qop, P) # post"
    and c: "choose_mode_min_power (from_bep 300 120 1200 2) 0 [700, 800, 900, 1000] 300 5
              power_model_convex_default 40 1200 = Inr (rpm, Qop)"
    and f: "Qop \<ge> 300 - 5"
    and a: "\<forall>(r, q, p) \<in> set pre. q \<ge> 300 - 5 \<longrightarrow> P < p"
    by (auto split: if_splits)
  from d f a have "rpm = 800 \<and> Qop = 1000 / 3"
    by (auto simp: Cons_eq_append_conv)
  with ne demo_triples c show ?thesis by simp
qed

section \<open>The simulation loop\<close>

lemma np_index_eq_Inr: "np_index xs i = Inr v \<longleftrightarrow> i < length xs \<and> v = xs ! i"
  by (auto simp: np_index_def)

lemma sim_step_index_error:
  assumes "\<not> (i < length k_t \<and> i < length Q_demand)"
  shows "sim_step fan Q_demand k_t kw rpm_lo rpm_hi i data =
           Inl (IndexError i)"
  using assms by (auto simp: sim_step_def np_index_def)

text \<open>What a successful step writes: row \<open>i\<close> of every result column, nothing else.\<close>

lemma sim_step_effect:
  assumes "sim_step fan Q_demand k_t kw rpm_lo rpm_hi i data = Inr data'"
  shows "i < length k_t \<and> i < length Q_demand \<and>
    (\<exists>Qf Pf rpm_m Qm Pm rpm_v Qv Pv.
      data' = data
        \<lparr>Q_fixed := (Q_fixed data)[i := Qf], P_fixed := (P_fixed data)[i := Pf],
         c_fixed := (c_fixed data)[i := (\<bar>Qf - Q_demand ! i\<bar> \<le> kw_eps_cfm kw)],
         s_fixed := (s_fixed data)[i := max 0 (Q_demand ! i - Qf - kw_eps_cfm kw)],
         o_fixed := (o_fixed data)[i := max 0 (Qf - Q_demand ! i - kw_eps_cfm kw)],
         rpm_modes := (rpm_modes data)[i := rpm_m],
         Q_modes := (Q_modes data)[i := Qm], P_modes := (P_modes data)[i := Pm],
         c_modes := (c_modes data)[i := (\<bar>Qm - Q_demand ! i\<bar> \<le> kw_eps_cfm kw)],
         s_modes := (s_modes data)[i := max 0 (Q_demand ! i - Qm - kw_eps_cfm kw)],
         o_modes := (o_modes data)[i := max 0 (Qm - Q_demand ! i - kw_eps_cfm kw)],
         rpm_var := (rpm_var data)[i := rpm_v],
         Q_var := (Q_var data)[i := Qv], P_var := (P_var data)[i := Pv],
         c_var := (c_var data)[i := (\<bar>Qv - Q_demand ! i\<bar> \<le> kw_eps_cfm kw)],
         s_var := (s_var data)[i := max 0 (Q_demand ! i - Qv - kw_eps_cfm kw)],
         o_var := (o_var data)[i := max 0 (Qv - Q_demand ! i - kw_eps_cfm kw)]\<rparr>)"
  using assms
  unfolding sim_step_def Let_def
  apply (auto simp: bind_eq_Inr np_index_eq_Inr split: prod.splits)
  apply (intro exI)
  apply (rule refl)
  done

lemma init_data_cols_len: "cols_len (length t) (init_data t Q_demand k_t fixed_rpm)"
  by (simp add: cols_len_def init_data_def Let_def)

lemma init_data_inputs:
  "col_t (init_data t Q_demand k_t fixed_rpm) = t \<and>
   col_Qd (init_data t Q_demand k_t fixed_rpm) = Q_demand \<and>
   col_k (init_data t Q_demand k_t fixed_rpm) = k_t"
  by (simp add: init_data_def Let_def)

lemma sim_step_inv:
  assumes step: "sim_step fan Q_demand k_t kw rpm_lo rpm_hi i data = Inr data'"
    and len: "cols_len T data" and i: "i < T"
  shows "cols_len T data' \<and> frame_ok Q_demand (kw_eps_cfm kw) data' i \<and>
         (\<forall>j. frame_ok Q_demand (kw_eps_cfm kw) data j \<longrightarrow> frame_ok Q_demand (kw_eps_cfm kw) data' j) \<and>
         col_t data' = col_t data \<and> col_Qd data' = col_Qd data \<and> col_k data' = col_k data"
proof -
  from sim_step_effect [OF step] obtain Qf Pf rpm_m Qm Pm rpm_v Qv Pv where
    d: "data' = data
        \<lparr>Q_fixed := (Q_fixed data)[i := Qf], P_fixed := (P_fixed data)[i := Pf],
         c_fixed := (c_fixed data)[i := (\<bar>Qf - Q_demand ! i\<bar> \<le> kw_eps_cfm kw)],
         s_fixed := (s_fixed data)[i := max 0 (Q_demand ! i - Qf - kw_eps_cfm kw)],
         o_fixed := (o_fixed data)[i := max 0 (Qf - Q_demand ! i - kw_eps_cfm kw)],
         rpm_modes := (rpm_modes data)[i := rpm_m],
         Q_modes := (Q_modes data)[i := Qm], P_modes := (P_modes data)[i := Pm],
         c_modes := (c_modes data)[i := (\<bar>Qm - Q_demand ! i\<bar> \<le> kw_eps_cfm kw)],
         s_modes := (s_modes data)[i := max 0 (Q_demand ! i - Qm - kw_eps_cfm kw)],
         o_modes := (o_modes data)[i := max 0 (Qm - Q_demand ! i - kw_eps_cfm kw)],
         rpm_var := (rpm_var data)[i := rpm_v],
         Q_var := (Q_var data)[i := Qv], P_var := (P_var data)[i := Pv],
         c_var := (c_var data)[i := (\<bar>Qv - Q_demand ! i\<bar> \<le> kw_eps_cfm kw)],
         s_var := (s_var data)[i := max 0 (Q_demand ! i - Qv - kw_eps_cfm kw)],
         o_var := (o_var data)[i := max 0 (Qv - Q_demand ! i - kw_eps_cfm kw)]\<rparr>"
    by blast
  have a: "cols_len T data'"
    using len unfolding d by (simp add: cols_len_def)
  have b: "frame_ok Q_demand (kw_eps_cfm kw) data' i"
    using len i unfolding d by (simp add: cols_len_def frame_ok_def strategy_ok_def)
  have c: "frame_ok Q_demand (kw_eps_cfm kw) data' j" if "frame_ok Q_demand (kw_eps_cfm kw) data j" for j
  proof (cases "j = i")
    case True
    with b show ?thesis by simp
  next
    case False
    with that show ?thesis unfolding d by (simp add: frame_ok_def)
  qed
  have e: "col_t data' = col_t data \<and> col_Qd data' = col_Qd data \<and> col_k data' = col_k data"
    unfolding d by simp
  from a b c e show ?thesis by blast
qed

lemma sim_loop_inv:
  assumes "sim_loop (sim_step fan Q_demand k_t kw rpm_lo rpm_hi) is data = Inr data'"
    and "cols_len T data" and "\<forall>i \<in> set is. i < T"
    and "\<forall>i \<in> S. frame_ok Q_demand (kw_eps_cfm kw) data i"
  shows "cols_len T data' \<and> (\<forall>i \<in> S \<union> set is. frame_ok Q_demand (kw_eps_cfm kw) data' i) \<and>
         col_t data' = col_t data \<and> col_Qd data' = col_Qd data \<and> col_k data' = col_k data"
  using assms
proof (induction "is" arbitrary: data S)
  case Nil
  then show ?case by simp
next
  case (Cons i "is")
  from Cons.prems(1) obtain d1 where
    s1: "sim_step fan Q_demand k_t kw rpm_lo rpm_hi i data = Inr d1"
    and rest: "sim_loop (sim_step fan Q_demand k_t kw rpm_lo rpm_hi) is d1 = Inr data'"
    by (auto simp: bind_eq_Inr)
  have i: "i < T" using Cons.prems(3) by simp
  note inv = sim_step_inv [OF s1 Cons.prems(2) i]
  have S': "\<forall>j \<in> insert i S. frame_ok Q_demand (kw_eps_cfm kw) d1 j"
    using inv Cons.prems(4) by blast
  have "\<forall>j \<in> set is. j < T" using Cons.prems(3) by simp
  from Cons.IH [OF rest _ this S'] inv show ?case by auto
qed

lemma sim_loop_fails:
  assumes "i \<in> set is" and "\<not> (i < length k_t \<and> i < length Q_demand)"
  shows "\<exists>e. sim_loop (sim_step fan Q_demand k_t kw rpm_lo rpm_hi) is data = Inl e"
  using assms(1)
proof (induction "is" arbitrary: data)
  case Nil
  then show ?case by simp
next
  case (Cons j "is")
  show ?case
  proof (cases "sim_step fan Q_demand k_t kw rpm_lo rpm_hi j data")
    case (Inl e)
    then show ?thesis by simp
  next
    case (Inr d1)
    then have "j \<noteq> i"
      using sim_step_index_error [OF assms(2), of fan kw rpm_lo rpm_hi data] by auto
    with Cons.prems have "i \<in> set is" by simp
    from Cons.IH [OF this, of d1] Inr show ?thesis by simp
  qed
qed

section \<open>A run on well-formed input returns\<close>

lemma n_grid_default_pos: "0 < n_grid_default"
  by (simp add: n_grid_default_def)

lemma ratio_power_bound:
  fixes rpm N R :: real
  assumes "\<bar>rpm\<bar> \<le> R" and "(R / \<bar>N\<bar>) ^ n < float_overflow"
  shows "\<bar>(rpm / N) ^ n\<bar> < float_overflow"
proof -
  have "\<bar>(rpm / N) ^ n\<bar> = (\<bar>rpm\<bar> / \<bar>N\<bar>) ^ n"
    by (simp add: power_abs)
  also have "\<dots> \<le> (R / \<bar>N\<bar>) ^ n"
    using assms(1) by (intro power_mono divide_right_mono) simp_all
  finally show ?thesis using assms(2) by simp
qed

lemma ratio_square_bound:
  fixes rpm N R :: real
  assumes "\<bar>rpm\<bar> \<le> R" and "(R / \<bar>N\<bar>) ^ 2 < float_overflow"
  shows "(rpm / N) ^ 2 < float_overflow"
  using ratio_power_bound [OF assms] by simp

lemma power_coeffs_total:
  assumes "\<bar>x_bep ^ 2\<bar> < float_overflow"
  shows "\<exists>c. power_coeffs idle_frac gamma_free x_bep = Inr c"
  using assms by (simp add: power_coeffs_def py_pow_ok Let_def)

lemma power_model_convex_total:
  assumes "N_ref_rpm fan \<noteq> 0" and "N_ref \<noteq> 0"
    and "\<bar>x_bep ^ 2\<bar> < float_overflow" and "\<bar>(rpm / N_ref) ^ 3\<bar> < float_overflow"
  shows "\<exists>P. power_model_convex fan Q_cfm rpm P_bep_ref_W N_ref idle_frac gamma_free x_bep = Inr P"
proof -
  obtain p0 b1 b2 where "power_coeffs idle_frac gamma_free x_bep = Inr (p0, b1, b2)"
    using power_coeffs_total [OF assms(3)] by (metis prod_cases3)
  from power_model_convex_ok [OF assms(1,2) this assms(4)] show ?thesis by blast
qed

lemma bisect_total:
  assumes nz: "N_ref_rpm fan \<noteq> 0" and R: "(R / \<bar>N_ref_rpm fan\<bar>) ^ 2 < float_overflow"
  shows "\<bar>lo\<bar> \<le> R \<Longrightarrow> \<bar>hi\<bar> \<le> R \<Longrightarrow>
         \<exists>rpm Q. bisect fan k Q_target eps_cfm iters lo hi = Inr (rpm, Q) \<and> \<bar>rpm\<bar> \<le> R"
proof (induction iters arbitrary: lo hi)
  case 0
  have mid: "\<bar>0.5 * (lo + hi)\<bar> \<le> R" using 0 by (simp add: abs_le_iff)
  obtain Q where "operating_point_Q fan k (0.5 * (lo + hi)) n_grid_default = Inr Q"
    using operating_point_Q_total [OF nz n_grid_default_pos ratio_square_bound [OF mid R]] by blast
  then have "bisect fan k Q_target eps_cfm 0 lo hi = Inr (0.5 * (lo + hi), Q)"
    by (simp add: Let_def)
  with mid show ?case by blast
next
  case (Suc iters)
  have mid: "\<bar>0.5 * (lo + hi)\<bar> \<le> R" using Suc.prems by (simp add: abs_le_iff)
  obtain Q where "operating_point_Q fan k (0.5 * (lo + hi)) n_grid_default = Inr Q"
    using operating_point_Q_total [OF nz n_grid_default_pos ratio_square_bound [OF mid R]] by blast
  then have eq: "bisect fan k Q_target eps_cfm (Suc iters) lo hi =
      (if Q < Q_target - eps_cfm then bisect fan k Q_target eps_cfm iters (0.5 * (lo + hi)) hi
       else if Q > Q_target + eps_cfm then bisect fan k Q_target eps_cfm iters lo (0.5 * (lo + hi))
       else Inr (0.5 * (lo + hi), Q))"
    by (simp add: Let_def)
  consider "Q < Q_target - eps_cfm" | "\<not> Q < Q_target - eps_cfm" "Q > Q_target + eps_cfm"
    | "\<not> Q < Q_target - eps_cfm" "\<not> Q > Q_target + eps_cfm"
    by blast
  then show ?case
  proof cases
    case 1
    then show ?thesis unfolding eq using Suc.IH [OF mid Suc.prems(2)] by (simp only: if_True)
  next
    case 2
    then show ?thesis unfolding eq using Suc.IH [OF Suc.prems(1) mid] by (simp only: if_True if_False)
  next
    case 3
    then show ?thesis unfolding eq using mid by (simp only: if_False) blast
  qed
qed

lemma solve_rpm_for_Q_total:
  assumes nz: "N_ref_rpm fan \<noteq> 0" and R: "(R / \<bar>N_ref_rpm fan\<bar>) ^ 2 < float_overflow"
    and lo: "\<bar>rpm_lo\<bar> \<le> R" and hi: "\<bar>rpm_hi\<bar> \<le> R"
  shows "\<exists>rpm Q. solve_rpm_for_Q fan k Q_target rpm_lo rpm_hi eps_cfm iters = Inr (rpm, Q)
           \<and> \<bar>rpm\<bar> \<le> R"
proof -
  obtain Q_lo where l: "operating_point_Q fan k rpm_lo n_grid_default = Inr Q_lo"
    using operating_point_Q_total [OF nz n_grid_default_pos ratio_square_bound [OF lo R]] by blast
  obtain Q_hi where h: "operating_point_Q fan k rpm_hi n_grid_default = Inr Q_hi"
    using operating_point_Q_total [OF nz n_grid_default_pos ratio_square_bound [OF hi R]] by blast
  show ?thesis
    using bisect_total [OF nz R lo hi] lo hi by (simp add: solve_rpm_for_Q_def l h)
qed

lemma mode_triples_total:
  assumes nz: "N_ref_rpm fan \<noteq> 0" and ref: "N_ref \<noteq> 0"
    and R2: "(R / \<bar>N_ref_rpm fan\<bar>) ^ 2 < float_overflow"
    and R3: "(R / \<bar>N_ref\<bar>) ^ 3 < float_overflow"
  shows "\<forall>rpm \<in> set speeds. \<bar>rpm\<bar> \<le> R \<Longrightarrow>
         \<exists>triples. mode_triples fan k speeds power_model_convex_default P_bep_ref_W N_ref = Inr triples"
proof (induction speeds)
  case Nil
  then show ?case by simp
next
  case (Cons rpm speeds)
  have r: "\<bar>rpm\<bar> \<le> R" using Cons.prems by simp
  obtain Q where q: "operating_point_Q fan k rpm n_grid_default = Inr Q"
    using operating_point_Q_total [OF nz n_grid_default_pos ratio_square_bound [OF r R2]] by blast
  have "\<bar>(0.60 :: real) ^ 2\<bar> < float_overflow"
    by (simp add: float_overflow_def power2_eq_square)
  then obtain P where p: "power_model_convex_default fan Q rpm P_bep_ref_W N_ref = Inr P"
    unfolding power_model_convex_default_def
    using power_model_convex_total [OF nz ref _ ratio_power_bound [OF r R3]] by blast
  from Cons q p show ?case by auto
qed

lemma choose_mode_min_power_member:
  assumes "choose_mode_min_power fan k speeds Q_target eps_cfm power_fn P_bep_ref_W N_ref
             = Inr (rpm, Q)"
  shows "rpm \<in> set speeds"
proof -
  from assms obtain triples where
    t: "mode_triples fan k speeds power_fn P_bep_ref_W N_ref = Inr triples"
    by (auto simp: choose_mode_min_power_def bind_eq_Inr)
  let ?feas = "filter (\<lambda>(rpm, Qop, P). Qop \<ge> Q_target - eps_cfm) triples"
  have "\<exists>P. (rpm, Q, P) \<in> set triples"
  proof (cases "?feas = []")
    case True
    with assms t obtain m where m: "py_max (\<lambda>z. fst (snd z)) triples = Inr m"
      and "fst m = rpm \<and> fst (snd m) = Q"
      by (auto simp: choose_mode_min_power_def bind_eq_Inr split: prod.splits)
    moreover have "m \<in> set triples"
    proof -
      from py_max_first [OF m] obtain pre post where "triples = pre @ m # post" by blast
      then show ?thesis by (metis in_set_conv_decomp)
    qed
    ultimately show ?thesis by (cases m) auto
  next
    case False
    with assms t obtain m where m: "py_min (\<lambda>z. snd (snd z)) ?feas = Inr m"
      and "fst m = rpm \<and> fst (snd m) = Q"
      by (auto simp: choose_mode_min_power_def bind_eq_Inr split: prod.splits)
    moreover have "m \<in> set triples"
    proof -
      from py_min_first [OF m] obtain pre post where "?feas = pre @ m # post" by blast
      then have "m \<in> set ?feas" by (metis in_set_conv_decomp)
      then show ?thesis by (metis filter_is_subset subsetD)
    qed
    ultimately show ?thesis by (cases m) auto
  qed
  then have "rpm \<in> fst ` set triples" by force
  then show ?thesis using mode_triples_result [OF t] by (metis set_map)
qed

lemma choose_mode_min_power_total:
  assumes nz: "N_ref_rpm fan \<noteq> 0" and ref: "N_ref \<noteq> 0" and ne: "speeds \<noteq> []"
    and R2: "(R / \<bar>N_ref_rpm fan\<bar>) ^ 2 < float_overflow"
    and R3: "(R / \<bar>N_ref\<bar>) ^ 3 < float_overflow"
    and sp: "\<forall>rpm \<in> set speeds. \<bar>rpm\<bar> \<le> R"
  shows "\<exists>rpm Q. choose_mode_min_power fan k speeds Q_target eps_cfm power_model_convex_default
                P_bep_ref_W N_ref = Inr (rpm, Q) \<and> \<bar>rpm\<bar> \<le> R"
proof -
  obtain triples where t: "mode_triples fan k speeds power_model_convex_default P_bep_ref_W N_ref = Inr triples"
    using mode_triples_total [OF nz ref R2 R3 sp] by blast
  have tne: "triples \<noteq> []" using mode_triples_result [OF t] ne by auto
  let ?feas = "filter (\<lambda>(rpm, Qop, P). Qop \<ge> Q_target - eps_cfm) triples"
  have "\<exists>r. choose_mode_min_power fan k speeds Q_target eps_cfm power_model_convex_default
                P_bep_ref_W N_ref = Inr r"
  proof (cases "?feas = []")
    case True
    obtain m where "py_max (\<lambda>z. fst (snd z)) triples = Inr m"
      using py_max_total [OF tne] by blast
    with True show ?thesis
      by (cases m) (simp add: choose_mode_min_power_def t)
  next
    case False
    obtain m where "py_min (\<lambda>z. snd (snd z)) ?feas = Inr m"
      using py_min_total [OF False] by blast
    with False show ?thesis
      by (cases m) (simp add: choose_mode_min_power_def t)
  qed
  then obtain rpm Q where c: "choose_mode_min_power fan k speeds Q_target eps_cfm
      power_model_convex_default P_bep_ref_W N_ref = Inr (rpm, Q)"
    by (metis surj_pair)
  from choose_mode_min_power_member [OF c] sp have "\<bar>rpm\<bar> \<le> R" by blast
  with c show ?thesis by blast
qed

lemma sim_step_total:
  assumes ok: "args_ok fan kw R"
    and lo: "\<bar>rpm_lo\<bar> \<le> R" and hi: "\<bar>rpm_hi\<bar> \<le> R"
    and i: "i < length k_t" "i < length Q_demand"
  shows "\<exists>data'. sim_step fan Q_demand k_t kw rpm_lo rpm_hi i data = Inr data'"
proof -
  from ok have fan: "N_ref_rpm fan \<noteq> 0" and ref: "kw_N_ref_rpm kw \<noteq> 0"
    and sp: "kw_speeds_rpm kw \<noteq> []"
    and spR: "\<forall>rpm \<in> set (kw_speeds_rpm kw). \<bar>rpm\<bar> \<le> R"
    and fx: "\<bar>kw_fixed_rpm kw\<bar> \<le> R"
    and R2: "(R / \<bar>N_ref_rpm fan\<bar>) ^ 2 < float_overflow"
    and R3: "(R / \<bar>kw_N_ref_rpm kw\<bar>) ^ 3 < float_overflow"
    and xb: "\<bar>kw_x_bep kw ^ 2\<bar> < float_overflow"
    by (simp_all add: args_ok_def)
  obtain Qf where 1: "operating_point_Q fan (k_t ! i) (kw_fixed_rpm kw) n_grid_default = Inr Qf"
    using operating_point_Q_total [OF fan n_grid_default_pos ratio_square_bound [OF fx R2]] by blast
  obtain rpm_m Qm where 2: "choose_mode_min_power fan (k_t ! i) (kw_speeds_rpm kw) (Q_demand ! i)
             (kw_eps_cfm kw) power_model_convex_default (kw_P_bep_ref_W kw) (kw_N_ref_rpm kw)
             = Inr (rpm_m, Qm)" and mR: "\<bar>rpm_m\<bar> \<le> R"
    using choose_mode_min_power_total [OF fan ref sp R2 R3 spR] by blast
  obtain rpm_v Qv where 3: "solve_rpm_for_Q fan (k_t ! i) (Q_demand ! i) rpm_lo rpm_hi
             (kw_eps_cfm kw) 24 = Inr (rpm_v, Qv)" and vR: "\<bar>rpm_v\<bar> \<le> R"
    using solve_rpm_for_Q_total [OF fan R2 lo hi] by blast
  have 4: "\<exists>P. power_model_convex fan Q rpm (kw_P_bep_ref_W kw) (kw_N_ref_rpm kw)
                  (kw_idle_frac kw) (kw_gamma_free kw) (kw_x_bep kw) = Inr P"
    if "\<bar>rpm\<bar> \<le> R" for Q rpm
    using power_model_convex_total [OF fan ref xb ratio_power_bound [OF that R3]] by blast
  obtain Pf where 5: "power_model_convex fan Qf (kw_fixed_rpm kw) (kw_P_bep_ref_W kw) (kw_N_ref_rpm kw)
                  (kw_idle_frac kw) (kw_gamma_free kw) (kw_x_bep kw) = Inr Pf"
    using 4 [OF fx] by blast
  obtain Pm where 6: "power_model_convex fan Qm rpm_m (kw_P_bep_ref_W kw) (kw_N_ref_rpm kw)
                  (kw_idle_frac kw) (kw_gamma_free kw) (kw_x_bep kw) = Inr Pm"
    using 4 [OF mR] by blast
  obtain Pv where 7: "power_model_convex fan Qv rpm_v (kw_P_bep_ref_W kw) (kw_N_ref_rpm kw)
                  (kw_idle_frac kw) (kw_gamma_free kw) (kw_x_bep kw) = Inr Pv"
    using 4 [OF vR] by blast
  show ?thesis
    using i 1 2 3 5 6 7
    by (simp add: sim_step_def np_index_def Let_def)
qed

lemma sim_loop_total:
  assumes ok: "args_ok fan kw R"
    and lo: "\<bar>rpm_lo\<bar> \<le> R" and hi: "\<bar>rpm_hi\<bar> \<le> R"
  shows "\<forall>i \<in> set is. i < length k_t \<and> i < length Q_demand \<Longrightarrow>
         \<exists>data'. sim_loop (sim_step fan Q_demand k_t kw rpm_lo rpm_hi) is data = Inr data'"
proof (induction "is" arbitrary: data)
  case Nil
  then show ?case by simp
next
  case (Cons i "is")
  then have "i < length k_t" "i < length Q_demand" by simp_all
  from sim_step_total [OF ok lo hi this] obtain d1 where
    "sim_step fan Q_demand k_t kw rpm_lo rpm_hi i data = Inr d1" by blast
  moreover from Cons have "\<exists>data'. sim_loop (sim_step fan Q_demand k_t kw rpm_lo rpm_hi) is d1 = Inr data'"
    by simp
  ultimately show ?case by simp
qed

lemma py_min_member: "py_min key xs = Inr m \<Longrightarrow> m \<in> set xs"
  using py_min_first [of key xs m] by (metis in_set_conv_decomp)

lemma py_max_member: "py_max key xs = Inr m \<Longrightarrow> m \<in> set xs"
  using py_max_first [of key xs m] by (metis in_set_conv_decomp)

lemma rpm_bounds_total:
  assumes ok: "args_ok fan kw R"
  shows "\<exists>rpm_lo rpm_hi. (case kw_rpm_bounds kw of
             Some b \<Rightarrow> Inr b
           | None \<Rightarrow> bind (py_min (\<lambda>x. x) (kw_speeds_rpm kw)) (\<lambda>lo.
                     bind (py_max (\<lambda>x. x) (kw_speeds_rpm kw)) (\<lambda>hi. Inr (lo, hi))))
           = Inr (rpm_lo, rpm_hi) \<and> \<bar>rpm_lo\<bar> \<le> R \<and> \<bar>rpm_hi\<bar> \<le> R"
proof (cases "kw_rpm_bounds kw")
  case None
  from ok have sp: "kw_speeds_rpm kw \<noteq> []"
    and spR: "\<forall>rpm \<in> set (kw_speeds_rpm kw). \<bar>rpm\<bar> \<le> R"
    by (simp_all add: args_ok_def)
  obtain lo where l: "py_min (\<lambda>x. x) (kw_speeds_rpm kw) = Inr lo"
    using py_min_total [OF sp] by blast
  obtain hi where h: "py_max (\<lambda>x. x) (kw_speeds_rpm kw) = Inr hi"
    using py_max_total [OF sp] by blast
  have "\<bar>lo\<bar> \<le> R" "\<bar>hi\<bar> \<le> R"
    using py_min_member [OF l] py_max_member [OF h] spR by blast+
  with l h None show ?thesis by simp
next
  case (Some b)
  obtain lo hi where b: "b = (lo, hi)" by (cases b) auto
  with ok Some have "\<bar>lo\<bar> \<le> R \<and> \<bar>hi\<bar> \<le> R" by (simp add: args_ok_def)
  with Some b show ?thesis by simp
qed

text \<open>The shape of a run that returns.\<close>

lemma run_time_sim_result:
  assumes "run_time_sim fan t Q_demand k_t kw = Inr (df, m)"
  shows "\<exists>rpm_lo rpm_hi.
     sim_loop (sim_step fan Q_demand k_t kw rpm_lo rpm_hi) [0..<length t]
        (init_data t Q_demand k_t (kw_fixed_rpm kw)) = Inr (columns df) \<and>
     length Q_demand = length t \<and> length k_t = length t \<and>
     attrs_dt_s df = (if length t > 1 then np_median (np_diff t) else 1) \<and>
     m = \<lparr>m_fixed = agg (attrs_dt_s df) (kw_lambda_shortfall kw) (P_fixed (columns df))
                      (Q_fixed (columns df)) (c_fixed (columns df)) (s_fixed (columns df))
                      (o_fixed (columns df)),
          m_modes = agg (attrs_dt_s df) (kw_lambda_shortfall kw) (P_modes (columns df))
                      (Q_modes (columns df)) (c_modes (columns df)) (s_modes (columns df))
                      (o_modes (columns df)),
          m_var = agg (attrs_dt_s df) (kw_lambda_shortfall kw) (P_var (columns df))
                      (Q_var (columns df)) (c_var (columns df)) (s_var (columns df))
                      (o_var (columns df)),
          m_eps_cfm = kw_eps_cfm kw, m_lambda_shortfall = kw_lambda_shortfall kw\<rparr>"
proof -
  from assms obtain rpm_lo rpm_hi data where
    loop: "sim_loop (sim_step fan Q_demand k_t kw rpm_lo rpm_hi) [0..<length t]
        (init_data t Q_demand k_t (kw_fixed_rpm kw)) = Inr data"
    and pd: "pd_DataFrame data = Inr (columns df)"
    and dt: "attrs_dt_s df = (if length t > 1 then np_median (np_diff t) else 1)"
    and m: "m = \<lparr>m_fixed = agg (attrs_dt_s df) (kw_lambda_shortfall kw) (P_fixed (columns df))
                      (Q_fixed (columns df)) (c_fixed (columns df)) (s_fixed (columns df))
                      (o_fixed (columns df)),
          m_modes = agg (attrs_dt_s df) (kw_lambda_shortfall kw) (P_modes (columns df))
                      (Q_modes (columns df)) (c_modes (columns df)) (s_modes (columns df))
                      (o_modes (columns df)),
          m_var = agg (attrs_dt_s df) (kw_lambda_shortfall kw) (P_var (columns df))
                      (Q_var (columns df)) (c_var (columns df)) (s_var (columns df))
                      (o_var (columns df)),
          m_eps_cfm = kw_eps_cfm kw, m_lambda_shortfall = kw_lambda_shortfall kw\<rparr>"
    unfolding run_time_sim_def Let_def
    by (auto simp: bind_eq_Inr split: prod.splits)
  from pd have same: "columns df = data"
    and l: "length (col_Qd data) = length (col_t data) \<and> length (col_k data) = length (col_t data)"
    by (auto simp: pd_DataFrame_def split: if_splits)
  have "\<forall>i \<in> {}. frame_ok Q_demand (kw_eps_cfm kw) (init_data t Q_demand k_t (kw_fixed_rpm kw)) i"
    by simp
  from sim_loop_inv [OF loop init_data_cols_len _ this]
  have "col_t data = t \<and> col_Qd data = Q_demand \<and> col_k data = k_t"
    by (simp add: init_data_inputs)
  with l have "length Q_demand = length t \<and> length k_t = length t" by simp
  with loop same dt m show ?thesis by blast
qed

lemma sim_loop_append:
  "sim_loop step (xs @ ys) data = bind (sim_loop step xs data) (sim_loop step ys)"
  by (induction xs arbitrary: data) (simp_all add: bind_def split: sum.splits)

lemma sim_loop_inputs:
  assumes "sim_loop (sim_step fan Q_demand k_t kw rpm_lo rpm_hi) [0..<n]
             (init_data t Q_demand k_t fixed_rpm) = Inr data" and "n \<le> length t"
  shows "col_t data = t \<and> col_Qd data = Q_demand \<and> col_k data = k_t"
proof -
  have "\<forall>i \<in> {}. frame_ok Q_demand (kw_eps_cfm kw) (init_data t Q_demand k_t fixed_rpm) i"
    by simp
  from sim_loop_inv [OF assms(1) init_data_cols_len _ this] assms(2)
  show ?thesis by (simp add: init_data_inputs)
qed

lemma run_time_sim_total:
  assumes ok: "args_ok fan kw R"
    and len: "length Q_demand = length t" "length k_t = length t"
  shows "\<exists>df m. run_time_sim fan t Q_demand k_t kw = Inr (df, m)"
proof -
  obtain rpm_lo rpm_hi where b: "(case kw_rpm_bounds kw of
             Some b \<Rightarrow> Inr b
           | None \<Rightarrow> bind (py_min (\<lambda>x. x) (kw_speeds_rpm kw)) (\<lambda>lo.
                     bind (py_max (\<lambda>x. x) (kw_speeds_rpm kw)) (\<lambda>hi. Inr (lo, hi)))) = Inr (rpm_lo, rpm_hi)"
    and lo: "\<bar>rpm_lo\<bar> \<le> R" and hi: "\<bar>rpm_hi\<bar> \<le> R"
    using rpm_bounds_total [OF ok] by blast
  have "\<forall>i \<in> set [0..<length t]. i < length k_t \<and> i < length Q_demand"
    using len by simp
  from sim_loop_total [OF ok lo hi this] obtain data where
    loop: "sim_loop (sim_step fan Q_demand k_t kw rpm_lo rpm_hi) [0..<length t]
             (init_data t Q_demand k_t (kw_fixed_rpm kw)) = Inr data"
    by blast
  from sim_loop_inputs [OF loop]
  have "col_t data = t \<and> col_Qd data = Q_demand \<and> col_k data = k_t" by simp
  then have pd: "pd_DataFrame data = Inr data"
    using len by (simp add: pd_DataFrame_def)
  show ?thesis
    unfolding run_time_sim_def Let_def b by (simp add: loop pd)
qed

lemma main_args_ok: "args_ok (from_bep 300 120 1200 2) main_kwargs 2000"
  by (simp add: args_ok_def main_kwargs_def from_bep_def float_overflow_def power_divide)

lemma main_fan_ok: "N_ref_rpm (from_bep 300 120 1200 2) \<noteq> 0"
  by (simp add: from_bep_def)

section \<open>Malformed input (C3)\<close>




section \<open>Frames and aggregates (C4, C5)\<close>

lemma strategy_ok_conservation:
  assumes "strategy_ok Qd eps Q c s o'"
  shows "c = (\<bar>Q - Qd\<bar> \<le> eps) \<and> s = max 0 (Qd - Q - eps) \<and> o' = max 0 (Q - Qd - eps) \<and>
         s * of_bool c = 0 \<and> o' * of_bool c = 0"
  using assms by (auto simp: strategy_ok_def)

text \<open>
  C4. In every frame \<open>i\<close> of a run that returns, and for each of the three strategies,
  the compliance flag is \<open>\<bar>delivered - demand\<bar> \<le> tolerance\<close>, the shortfall is
  \<open>max(0, demand - delivered - tolerance)\<close>, the oversupply is
  \<open>max(0, delivered - demand - tolerance)\<close>, and shortfall times compliant and
  oversupply times compliant are both zero.
\<close>

theorem run_time_sim_conservation:
  assumes run: "run_time_sim fan t Q_demand k_t kw = Inr (df, m)" and i: "i < length t"
  shows "\<forall>(Q, c, s, o') \<in> set
            [(Q_fixed (columns df), c_fixed (columns df), s_fixed (columns df), o_fixed (columns df)),
             (Q_modes (columns df), c_modes (columns df), s_modes (columns df), o_modes (columns df)),
             (Q_var (columns df), c_var (columns df), s_var (columns df), o_var (columns df))].
          c ! i = (\<bar>Q ! i - Q_demand ! i\<bar> \<le> kw_eps_cfm kw) \<and>
          s ! i = max 0 (Q_demand ! i - Q ! i - kw_eps_cfm kw) \<and>
          o' ! i = max 0 (Q ! i - Q_demand ! i - kw_eps_cfm kw) \<and>
          s ! i * of_bool (c ! i) = 0 \<and> o' ! i * of_bool (c ! i) = 0"
proof -
  from run_time_sim_result [OF run] obtain rpm_lo rpm_hi where
    loop: "sim_loop (sim_step fan Q_demand k_t kw rpm_lo rpm_hi) [0..<length t]
        (init_data t Q_demand k_t (kw_fixed_rpm kw)) = Inr (columns df)"
    by blast
  have "\<forall>i \<in> {}. frame_ok Q_demand (kw_eps_cfm kw) (init_data t Q_demand k_t (kw_fixed_rpm kw)) i"
    by simp
  from sim_loop_inv [OF loop init_data_cols_len _ this] i
  have "frame_ok Q_demand (kw_eps_cfm kw) (columns df) i" by simp
  then have
    "strategy_ok (Q_demand ! i) (kw_eps_cfm kw) (Q_fixed (columns df) ! i) (c_fixed (columns df) ! i)
       (s_fixed (columns df) ! i) (o_fixed (columns df) ! i)"
    "strategy_ok (Q_demand ! i) (kw_eps_cfm kw) (Q_modes (columns df) ! i) (c_modes (columns df) ! i)
       (s_modes (columns df) ! i) (o_modes (columns df) ! i)"
    "strategy_ok (Q_demand ! i) (kw_eps_cfm kw) (Q_var (columns df) ! i) (c_var (columns df) ! i)
       (s_var (columns df) ! i) (o_var (columns df) ! i)"
    by (simp_all only: frame_ok_def)
  from this [THEN strategy_ok_conservation] show ?thesis
    unfolding list.set ball_simps prod.case by blast
qed

theorem run_time_sim_conservation_witness:
  "\<exists>df m. run_time_sim (from_bep 300 120 1200 2) [0, 1] [300, 320] [6 / 10 ^ 5, 7 / 10 ^ 5]
             main_kwargs = Inr (df, m) \<and> (0 :: nat) < length [0, 1 :: real] \<and>
     s_fixed (columns df) ! 0 * of_bool (c_fixed (columns df) ! 0) = 0 \<and>
     o_fixed (columns df) ! 0 * of_bool (c_fixed (columns df) ! 0) = 0 \<and>
     s_modes (columns df) ! 0 * of_bool (c_modes (columns df) ! 0) = 0 \<and>
     o_modes (columns df) ! 0 * of_bool (c_modes (columns df) ! 0) = 0 \<and>
     s_var (columns df) ! 0 * of_bool (c_var (columns df) ! 0) = 0 \<and>
     o_var (columns df) ! 0 * of_bool (c_var (columns df) ! 0) = 0"
proof -
  obtain df m where run: "run_time_sim (from_bep 300 120 1200 2) [0, 1] [300, 320]
      [6 / 10 ^ 5, 7 / 10 ^ 5] main_kwargs = Inr (df, m)"
    using run_time_sim_total [OF main_args_ok, of "[300, 320]" "[0, 1]"
        "[6 / 10 ^ 5, 7 / 10 ^ 5]"]
    by auto
  have i: "(0 :: nat) < length [0, 1 :: real]" by simp
  note c = run_time_sim_conservation [OF run i, unfolded list.set ball_simps prod.case]
  from run i c show ?thesis by blast
qed

lemma count_compliant:
  assumes len: "length c = T" and fr: "\<forall>i < T. c ! i = (\<bar>Q ! i - Qd ! i\<bar> \<le> eps)"
  shows "length (filter id c) = card {i. i < T \<and> \<bar>Q ! i - Qd ! i\<bar> \<le> eps}"
proof -
  have "{i. i < length c \<and> id (c ! i)} = {i. i < T \<and> \<bar>Q ! i - Qd ! i\<bar> \<le> eps}"
    using len fr by auto
  then show ?thesis by (simp only: length_filter_conv_card)
qed

lemma agg_strategy:
  assumes len: "length c = length t" and fr: "\<forall>i < length t. c ! i = (\<bar>Q ! i - Qd ! i\<bar> \<le> eps)"
    and a: "a = agg dt lam P Q c s o'"
  shows "Wh a = sum_list P * dt / 3600 \<and>
         cfmh_delivered a = sum_list Q * dt / 3600 \<and>
         cfmh_shortfall a = sum_list s * dt / 3600 \<and>
         cfmh_oversupply a = sum_list o' * dt / 3600 \<and>
         compliance_pct a =
           (if t = [] then None
            else Some (100 * (real (card {i. i < length t \<and> \<bar>Q ! i - Qd ! i\<bar> \<le> eps})
                              / real (length t)))) \<and>
         SFP a = Wh a / max (cfmh_delivered a) tiny \<and>
         objective a = Wh a + lam * cfmh_shortfall a"
  using len unfolding a agg_def Let_def
  by (simp add: count_compliant [OF len fr])

text \<open>
  C5. For a run that returns, \<open>dt\<close> is the median of the consecutive timestamp
  differences when there is more than one timestamp and 1 otherwise, and for each of
  the three strategies, over columns that have one entry per timestamp: the energy is
  \<open>(\<Sum> power) dt / 3600\<close>; the delivered, shortfall and oversupply integrals are the
  same with the airflow, shortfall and oversupply columns; the compliance percentage is
  100 times the number of steps with \<open>\<bar>delivered - demand\<bar> \<le> tolerance\<close> over the
  number of steps (numpy's \<open>nan\<close> on an empty run); the specific fan power is the energy
  over \<open>max(delivered integral, 1e-9)\<close>; and the objective is the energy plus the
  penalty weight times the shortfall integral.
\<close>

theorem run_time_sim_aggregates:
  assumes run: "run_time_sim fan t Q_demand k_t kw = Inr (df, m)"
  shows "attrs_dt_s df = (if length t > 1 then np_median (np_diff t) else 1) \<and>
    (\<forall>(a, P, Q, c, s, o') \<in> set
        [(m_fixed m, P_fixed (columns df), Q_fixed (columns df), c_fixed (columns df),
          s_fixed (columns df), o_fixed (columns df)),
         (m_modes m, P_modes (columns df), Q_modes (columns df), c_modes (columns df),
          s_modes (columns df), o_modes (columns df)),
         (m_var m, P_var (columns df), Q_var (columns df), c_var (columns df),
          s_var (columns df), o_var (columns df))].
      length P = length t \<and> length Q = length t \<and> length s = length t \<and> length o' = length t \<and>
      Wh a = sum_list P * attrs_dt_s df / 3600 \<and>
      cfmh_delivered a = sum_list Q * attrs_dt_s df / 3600 \<and>
      cfmh_shortfall a = sum_list s * attrs_dt_s df / 3600 \<and>
      cfmh_oversupply a = sum_list o' * attrs_dt_s df / 3600 \<and>
      compliance_pct a =
        (if t = [] then None
         else Some (100 * (real (card {i. i < length t \<and> \<bar>Q ! i - Q_demand ! i\<bar> \<le> kw_eps_cfm kw})
                           / real (length t)))) \<and>
      SFP a = Wh a / max (cfmh_delivered a) tiny \<and>
      objective a = Wh a + kw_lambda_shortfall kw * cfmh_shortfall a)"
proof -
  let ?d = "columns df"
  from run_time_sim_result [OF run] obtain rpm_lo rpm_hi where
    loop: "sim_loop (sim_step fan Q_demand k_t kw rpm_lo rpm_hi) [0..<length t]
        (init_data t Q_demand k_t (kw_fixed_rpm kw)) = Inr ?d"
    and dt: "attrs_dt_s df = (if length t > 1 then np_median (np_diff t) else 1)"
    and m: "m = \<lparr>m_fixed = agg (attrs_dt_s df) (kw_lambda_shortfall kw) (P_fixed ?d)
                      (Q_fixed ?d) (c_fixed ?d) (s_fixed ?d) (o_fixed ?d),
          m_modes = agg (attrs_dt_s df) (kw_lambda_shortfall kw) (P_modes ?d)
                      (Q_modes ?d) (c_modes ?d) (s_modes ?d) (o_modes ?d),
          m_var = agg (attrs_dt_s df) (kw_lambda_shortfall kw) (P_var ?d)
                      (Q_var ?d) (c_var ?d) (s_var ?d) (o_var ?d),
          m_eps_cfm = kw_eps_cfm kw, m_lambda_shortfall = kw_lambda_shortfall kw\<rparr>"
    by blast
  have "\<forall>i \<in> {}. frame_ok Q_demand (kw_eps_cfm kw) (init_data t Q_demand k_t (kw_fixed_rpm kw)) i"
    by simp
  from sim_loop_inv [OF loop init_data_cols_len _ this]
  have len: "cols_len (length t) ?d"
    and fr: "\<forall>i < length t. frame_ok Q_demand (kw_eps_cfm kw) ?d i"
    by simp_all
  have mf: "m_fixed m = agg (attrs_dt_s df) (kw_lambda_shortfall kw) (P_fixed ?d)
                      (Q_fixed ?d) (c_fixed ?d) (s_fixed ?d) (o_fixed ?d)"
    and mm: "m_modes m = agg (attrs_dt_s df) (kw_lambda_shortfall kw) (P_modes ?d)
                      (Q_modes ?d) (c_modes ?d) (s_modes ?d) (o_modes ?d)"
    and mv: "m_var m = agg (attrs_dt_s df) (kw_lambda_shortfall kw) (P_var ?d)
                      (Q_var ?d) (c_var ?d) (s_var ?d) (o_var ?d)"
    by (subst m, simp)+
  have lf: "length (c_fixed ?d) = length t" and lm: "length (c_modes ?d) = length t"
    and lv: "length (c_var ?d) = length t"
    using len by (simp_all add: cols_len_def)
  have ff: "\<forall>i < length t. c_fixed ?d ! i = (\<bar>Q_fixed ?d ! i - Q_demand ! i\<bar> \<le> kw_eps_cfm kw)"
    and fm: "\<forall>i < length t. c_modes ?d ! i = (\<bar>Q_modes ?d ! i - Q_demand ! i\<bar> \<le> kw_eps_cfm kw)"
    and fv: "\<forall>i < length t. c_var ?d ! i = (\<bar>Q_var ?d ! i - Q_demand ! i\<bar> \<le> kw_eps_cfm kw)"
    using fr by (simp_all add: frame_ok_def strategy_ok_def)
  have lens: "length (P_fixed ?d) = length t \<and> length (Q_fixed ?d) = length t \<and>
              length (s_fixed ?d) = length t \<and> length (o_fixed ?d) = length t"
    "length (P_modes ?d) = length t \<and> length (Q_modes ?d) = length t \<and>
              length (s_modes ?d) = length t \<and> length (o_modes ?d) = length t"
    "length (P_var ?d) = length t \<and> length (Q_var ?d) = length t \<and>
              length (s_var ?d) = length t \<and> length (o_var ?d) = length t"
    using len by (simp_all add: cols_len_def)
  note A = agg_strategy [OF lf ff mf] agg_strategy [OF lm fm mm] agg_strategy [OF lv fv mv]
  from dt lens A show ?thesis
    unfolding list.set ball_simps prod.case by blast
qed

lemma median_of_two: "np_median (np_diff [0, 1, 3]) = 3 / 2"
  by (simp add: np_median_def Let_def)

theorem run_time_sim_aggregates_witness:
  "\<exists>df m. run_time_sim (from_bep 300 120 1200 2) [0, 1, 3] [300, 320, 310]
             [6 / 10 ^ 5, 7 / 10 ^ 5, 8 / 10 ^ 5] main_kwargs = Inr (df, m) \<and>
     attrs_dt_s df = 3 / 2 \<and>
     Wh (m_fixed m) = sum_list (P_fixed (columns df)) * attrs_dt_s df / 3600 \<and>
     length (P_fixed (columns df)) = 3 \<and>
     SFP (m_var m) = Wh (m_var m) / max (cfmh_delivered (m_var m)) tiny \<and>
     objective (m_modes m) =
       Wh (m_modes m) + kw_lambda_shortfall main_kwargs * cfmh_shortfall (m_modes m)"
proof -
  obtain df m where run: "run_time_sim (from_bep 300 120 1200 2) [0, 1, 3] [300, 320, 310]
             [6 / 10 ^ 5, 7 / 10 ^ 5, 8 / 10 ^ 5] main_kwargs = Inr (df, m)"
    using run_time_sim_total [OF main_args_ok, of "[300, 320, 310]" "[0, 1, 3]"
        "[6 / 10 ^ 5, 7 / 10 ^ 5, 8 / 10 ^ 5]"]
    by auto
  note c = run_time_sim_aggregates [OF run, unfolded list.set ball_simps prod.case]
  have "attrs_dt_s df = 3 / 2"
    using c median_of_two by simp
  moreover have "length (P_fixed (columns df)) = 3"
    using c by simp
  ultimately show ?thesis using run c by blast
qed

end
